theory Spec2Isabelle
  imports Complex_Main "HOL-Library.Word"
begin

section \<open>Numbers, bytes and typed-array conversions\<close>

text \<open>
  The client is TypeScript. Its \<open>number\<close> values are modelled as exact rationals:
  every value the audio code computes (16-bit samples divided by 32768, clamped 32-bit
  floats times 32767 or 32768, small integers divided by 8) is a dyadic rational that an
  IEEE double holds exactly, so exact arithmetic computes what the program computes.
  NaN and the infinities are outside the model.  An \<open>ArrayBuffer\<close> is a list of bytes.
\<close>

type_synonym byte = "8 word"
type_synonym bytes = "byte list"

definition truncate_rat :: "rat \<Rightarrow> int" where
  \<comment> \<open>the integer part, rounding towards zero (the first step of ToUint32, ToUint16, ToInt16)\<close>
  "truncate_rat x = (if x < 0 then \<lceil>x\<rceil> else \<lfloor>x\<rfloor>)"

definition ToUint32 :: "rat \<Rightarrow> nat" where
  "ToUint32 x = nat (truncate_rat x mod 2 ^ 32)"

definition ToUint16 :: "rat \<Rightarrow> nat" where
  "ToUint16 x = nat (truncate_rat x mod 2 ^ 16)"

definition ToInt16 :: "rat \<Rightarrow> 16 word" where
  \<comment> \<open>the store into an \<open>Int16Array\<close> element; \<open>sint\<close> reads the element back\<close>
  "ToInt16 x = word_of_int (truncate_rat x)"

definition int16_bytes :: "16 word \<Rightarrow> bytes" where
  \<comment> \<open>the two bytes of an \<open>Int16Array\<close> element in its buffer (little-endian host)\<close>
  "int16_bytes w = [ucast w, ucast (drop_bit 8 w)]"

definition Int16Array_buffer :: "16 word list \<Rightarrow> bytes" where
  "Int16Array_buffer ws = concat (map int16_bytes ws)"

fun Int16Array_elems :: "bytes \<Rightarrow> 16 word list" where
  "Int16Array_elems (lo # hi # rest) =
     (ucast lo + push_bit 8 (ucast hi)) # Int16Array_elems rest"
| "Int16Array_elems _ = []"

definition Int16Array_of_buffer :: "bytes \<Rightarrow> 16 word list option" where
  \<comment> \<open>\<open>new Int16Array(buffer)\<close>: a RangeError (here \<open>None\<close>) unless the byte length is even\<close>
  "Int16Array_of_buffer b = (if even (length b) then Some (Int16Array_elems b) else None)"

section \<open>Frame codec\<close>

subsection \<open>The \<open>DataView\<close> writers used by the header encoder\<close>

text \<open>
  Each setter raises a RangeError when the field does not lie inside the buffer; the
  error is the value \<open>None\<close>.  Multi-byte fields are written little-endian (the source
  passes \<open>true\<close> as the third argument everywhere).
\<close>

definition setUint8 :: "nat \<Rightarrow> nat \<Rightarrow> bytes \<Rightarrow> bytes option" where
  "setUint8 off v buf =
     (if off + 1 \<le> length buf then Some (buf[off := of_nat v]) else None)"

definition setUint16 :: "nat \<Rightarrow> rat \<Rightarrow> bytes \<Rightarrow> bytes option" where
  "setUint16 off v buf =
     (if off + 2 \<le> length buf
      then (let n = ToUint16 v
            in Some (buf[off := of_nat n, off + 1 := of_nat (n div 256)]))
      else None)"

definition setUint32 :: "nat \<Rightarrow> rat \<Rightarrow> bytes \<Rightarrow> bytes option" where
  "setUint32 off v buf =
     (if off + 4 \<le> length buf
      then (let n = ToUint32 v
            in Some (buf[off := of_nat n, off + 1 := of_nat (n div 256),
                         off + 2 := of_nat (n div 65536),
                         off + 3 := of_nat (n div 16777216)]))
      else None)"

fun writeString :: "nat \<Rightarrow> string \<Rightarrow> bytes \<Rightarrow> bytes option" where
  "writeString off [] buf = Some buf"
| "writeString off (c # cs) buf =
     Option.bind (setUint8 off (of_char c) buf) (writeString (off + 1) cs)"

subsection \<open>\<open>createWavHeader\<close>\<close>

definition createWavHeader :: "int \<Rightarrow> int \<Rightarrow> bytes option" where
  "createWavHeader sampleRate bitsPerSample =
     (let buffer = replicate 44 (0 :: byte);
          numChannels = (1 :: rat)
      in Option.bind (writeString 0 ''RIFF'' buffer) (\<lambda>b.
         Option.bind (setUint32 4 0 b) (\<lambda>b.
         Option.bind (writeString 8 ''WAVE'' b) (\<lambda>b.
         Option.bind (writeString 12 ''fmt '' b) (\<lambda>b.
         Option.bind (setUint32 16 16 b) (\<lambda>b.
         Option.bind (setUint16 20 1 b) (\<lambda>b.
         Option.bind (setUint16 22 numChannels b) (\<lambda>b.
         Option.bind (setUint32 24 (of_int sampleRate) b) (\<lambda>b.
         Option.bind (setUint32 28
            (of_int sampleRate * numChannels * (of_int bitsPerSample / 8)) b) (\<lambda>b.
         Option.bind (setUint16 32 (numChannels * (of_int bitsPerSample / 8)) b) (\<lambda>b.
         Option.bind (setUint16 34 (of_int bitsPerSample) b) (\<lambda>b.
         Option.bind (writeString 36 ''data'' b) (\<lambda>b.
         setUint32 40 0 b)))))))))))))"

text \<open>Readers for stating the layout: the little-endian field at an offset, and the
  ASCII text of four bytes at an offset.\<close>

definition le16_at :: "nat \<Rightarrow> bytes \<Rightarrow> nat" where
  "le16_at off b = unat (b ! off) + 256 * unat (b ! (off + 1))"

definition le32_at :: "nat \<Rightarrow> bytes \<Rightarrow> nat" where
  "le32_at off b = unat (b ! off) + 256 * unat (b ! (off + 1))
                   + 65536 * unat (b ! (off + 2)) + 16777216 * unat (b ! (off + 3))"

definition tag_at :: "nat \<Rightarrow> bytes \<Rightarrow> string" where
  "tag_at off b = map (\<lambda>x. char_of (unat x)) (take 4 (drop off b))"

subsection \<open>\<open>isWavFile\<close>\<close>

definition fromCharCode :: "nat list \<Rightarrow> string" where
  \<comment> \<open>\<open>String.fromCharCode\<close> on byte values: one character per code\<close>
  "fromCharCode codes = map char_of codes"

definition getUint8 :: "bytes \<Rightarrow> nat \<Rightarrow> nat" where
  \<comment> \<open>\<open>view.getUint8(i)\<close>; \<open>isWavFile\<close> reads offsets below 12 only after its length guard\<close>
  "getUint8 data i = unat (data ! i)"

definition isWavFile :: "bytes \<Rightarrow> bool" where
  "isWavFile data =
     (if length data < 12 then False
      else (let riff = fromCharCode [getUint8 data 0, getUint8 data 1,
                                     getUint8 data 2, getUint8 data 3];
                wave = fromCharCode [getUint8 data 8, getUint8 data 9,
                                     getUint8 data 10, getUint8 data 11]
            in riff = ''RIFF'' \<and> wave = ''WAVE''))"

section \<open>Sample conversions\<close>

definition int16_to_float32 :: "16 word \<Rightarrow> rat" where
  \<comment> \<open>\<open>float32Array[i] = int16Array[i] / 32768.0\<close>\<close>
  "int16_to_float32 w = of_int (sint w) / 32768"

definition float32_to_int16 :: "rat \<Rightarrow> 16 word" where
  \<comment> \<open>\<open>let s = Math.max(-1, Math.min(1, x)); pcm16Data[i] = s < 0 ? s * 0x8000 : s * 0x7FFF\<close>\<close>
  "float32_to_int16 x =
     (let s = max (- 1) (min 1 x)
      in ToInt16 (if s < 0 then s * 32768 else s * 32767))"

section \<open>Identifier mapping of the recipe hooks\<close>

text \<open>
  \<open>useRecipes.ts\<close> sends a recipe and a user identifier to the collaborator service as
  \<open>parseInt(id.replace(/-/g, '').substring(0, 8), 16)\<close>.  Strings are lists of
  characters; \<open>parseInt\<close> returns NaN (here \<open>None\<close>) when no digit can be read.
\<close>

definition replace_hyphens :: "string \<Rightarrow> string" where
  \<comment> \<open>\<open>s.replace(/-/g, '')\<close>\<close>
  "replace_hyphens s = filter (\<lambda>c. c \<noteq> CHR ''-'') s"

definition substring :: "nat \<Rightarrow> nat \<Rightarrow> string \<Rightarrow> string" where
  \<comment> \<open>\<open>s.substring(a, b)\<close> for \<open>a \<le> b\<close>; indices beyond the end are clamped\<close>
  "substring a b s = take (b - a) (drop a s)"

definition hexDigit :: "char \<Rightarrow> nat option" where
  "hexDigit c =
     (let n = (of_char c :: nat)
      in if 48 \<le> n \<and> n \<le> 57 then Some (n - 48)
         else if 97 \<le> n \<and> n \<le> 102 then Some (n - 87)
         else if 65 \<le> n \<and> n \<le> 70 then Some (n - 55)
         else None)"

definition isHex :: "char \<Rightarrow> bool" where
  "isHex c = (hexDigit c \<noteq> None)"

definition isWhiteSpace :: "char \<Rightarrow> bool" where
  \<comment> \<open>the white space and line terminators among the first 256 code units\<close>
  "isWhiteSpace c = ((of_char c :: nat) \<in> {9, 10, 11, 12, 13, 32, 160})"

definition hexval :: "string \<Rightarrow> nat" where
  "hexval ds = foldl (\<lambda>a c. 16 * a + (case hexDigit c of Some d \<Rightarrow> d | None \<Rightarrow> 0)) 0 ds"

definition parseInt16 :: "string \<Rightarrow> int option" where
  \<comment> \<open>\<open>parseInt(s, 16)\<close>: leading white space, a sign, an optional \<open>0x\<close>, then the longest
      run of hexadecimal digits\<close>
  "parseInt16 s =
     (let s1 = dropWhile isWhiteSpace s;
          sign = (case s1 of c # _ \<Rightarrow> if c = CHR ''-'' then - 1 else (1::int) | [] \<Rightarrow> 1);
          s2 = (case s1 of c # r \<Rightarrow> if c = CHR ''-'' \<or> c = CHR ''+'' then r else s1 | [] \<Rightarrow> s1);
          s3 = (case s2 of
                  a # b # r \<Rightarrow> if a = CHR ''0'' \<and> (b = CHR ''x'' \<or> b = CHR ''X'') then r else s2
                | _ \<Rightarrow> s2);
          ds = takeWhile isHex s3
      in if ds = [] then None else Some (sign * int (hexval ds)))"

record chroma_ids =
  recipe_id :: "int option"
  user_id :: "int option"

definition addRecipe_ids :: "string \<Rightarrow> string \<Rightarrow> chroma_ids" where
  \<comment> \<open>the identifiers in the body of the upload request of \<open>addRecipe\<close>; \<open>data_id\<close> is the
      identifier of the inserted row\<close>
  "addRecipe_ids data_id userId =
     \<lparr> recipe_id = parseInt16 (substring 0 8 (replace_hyphens data_id)),
       user_id = parseInt16 (substring 0 8 (replace_hyphens userId)) \<rparr>"

definition updateRecipe_ids :: "string \<Rightarrow> string \<Rightarrow> chroma_ids" where
  \<comment> \<open>the identifiers of both requests (delete, then upload) of \<open>updateRecipe\<close>\<close>
  "updateRecipe_ids id' userId =
     (let recipeId = parseInt16 (substring 0 8 (replace_hyphens id'));
          userIdInt = parseInt16 (substring 0 8 (replace_hyphens userId))
      in \<lparr> recipe_id = recipeId, user_id = userIdInt \<rparr>)"

definition deleteRecipe_ids :: "string \<Rightarrow> string \<Rightarrow> chroma_ids" where
  "deleteRecipe_ids id' userId =
     (let recipeId = parseInt16 (substring 0 8 (replace_hyphens id'));
          userIdInt = parseInt16 (substring 0 8 (replace_hyphens userId))
      in \<lparr> recipe_id = recipeId, user_id = userIdInt \<rparr>)"

text \<open>A well-formed identifier: 36 characters, hyphens at positions 8, 13, 18 and 23,
  hexadecimal digits elsewhere.  Its 128-bit value is the number its 32 digits spell.\<close>

definition is_uuid :: "string \<Rightarrow> bool" where
  "is_uuid s =
     (length s = 36
      \<and> list_all isHex (take 8 s) \<and> s ! 8 = CHR ''-''
      \<and> list_all isHex (take 4 (drop 9 s)) \<and> s ! 13 = CHR ''-''
      \<and> list_all isHex (take 4 (drop 14 s)) \<and> s ! 18 = CHR ''-''
      \<and> list_all isHex (take 4 (drop 19 s)) \<and> s ! 23 = CHR ''-''
      \<and> list_all isHex (drop 24 s))"

definition uuid_value :: "string \<Rightarrow> nat" where
  "uuid_value s = hexval (filter (\<lambda>c. c \<noteq> CHR ''-'') s)"

section \<open>Playback of audio responses\<close>

text \<open>
  The state of the playback half of \<open>VoiceInterface\<close>: the React state and the refs the
  playback functions touch, together with a log of what the output devices were asked
  to do.  A queued chunk is a \<open>Float32Array\<close>.  The device fields record the calls of
  \<open>source.start(0)\<close> on queued sources (\<open>started\<close>), the queued sources that are
  playing (\<open>active\<close>), those that have played to their end (\<open>finished\<close>), the one-shot
  clips decoded from containers (\<open>clips\<close>) and the URIs handed to the native media
  player (\<open>sounds\<close>).  The completion callbacks of a one-shot clip and of a native sound
  only clear \<open>isPlayingAudio\<close> and add a log entry; they are left out.

  Two platform rules decide whether a call in these functions throws.  A call that
  spreads an array into its arguments, as \<open>Math.max(...Array.from(chunk))\<close> in the
  console diagnostics and \<open>String.fromCharCode(...uint8Array)\<close> do, raises a RangeError
  when the array is longer than the engine accepts; that bound belongs to the engine and
  is the parameter \<open>arg_limit\<close> of the functions below.  \<open>createBuffer(1, n, 16000)\<close>
  raises a NotSupportedError when \<open>n\<close> is 0.  What the console prints is not modelled,
  only whether the evaluation of its arguments throws.
\<close>

datatype platform = Web | Native

type_synonym chunk = "rat list"

datatype playback_message =
    ProcessingChunk | PlaybackCompleted | ErrorProcessing | PlayingResponse | ErrorPlaying

record playback =
  isPlayingAudio :: bool
  playbackAudioContext :: bool
  audioQueue :: "chunk list"
  isPlaying :: bool
  audioSource :: "chunk option"
  soundRef :: "string option"
  started :: "chunk list"
  active :: "chunk list"
  finished :: "chunk list"
  clips :: "bytes list"
  sounds :: "string list"
  playback_messages :: "playback_message list"

definition playback_init :: playback where
  "playback_init =
     \<lparr> isPlayingAudio = False, playbackAudioContext = False, audioQueue = [],
       isPlaying = False, audioSource = None, soundRef = None,
       started = [], active = [], finished = [], clips = [], sounds = [],
       playback_messages = [] \<rparr>"

definition addPlaybackMessage :: "playback_message \<Rightarrow> playback \<Rightarrow> playback" where
  \<comment> \<open>\<open>addMessage\<close>: the newest entry first\<close>
  "addPlaybackMessage m s = s\<lparr>playback_messages := m # playback_messages s\<rparr>"

definition spread_ok :: "nat \<Rightarrow> 'a list \<Rightarrow> bool" where
  \<comment> \<open>whether the engine accepts the elements of \<open>xs\<close> as the arguments of one call\<close>
  "spread_ok arg_limit xs = (length xs \<le> arg_limit)"

definition playNextChunk :: "nat \<Rightarrow> playback \<Rightarrow> playback + playback" where
  \<comment> \<open>\<open>Inl\<close>: an exception leaves the function, with the state at the throw.  The playback
      context exists at every call: the queue is filled only by \<open>playAudioOnWeb\<close>, after
      it has created the context\<close>
  "playNextChunk arg_limit s =
     (case audioQueue s of
        [] \<Rightarrow> Inr (addPlaybackMessage PlaybackCompleted
                     (s\<lparr>isPlaying := False, isPlayingAudio := False\<rparr>))
      | chunk # rest \<Rightarrow>
          (let s1 = s\<lparr>isPlaying := True, audioQueue := rest\<rparr>
           in if \<not> spread_ok arg_limit chunk then Inl s1
              else if length chunk = 0 then Inl s1
              else Inr (s1\<lparr>audioSource := Some chunk, started := started s1 @ [chunk],
                            active := active s1 @ [chunk]\<rparr>)))"

definition playAudioOnWeb :: "nat \<Rightarrow> bool \<Rightarrow> bytes \<Rightarrow> playback \<Rightarrow> playback" where
  \<comment> \<open>\<open>decodes\<close>: whether \<open>decodeAudioData\<close> accepts the container.  \<open>failed\<close> is the
      \<open>catch\<close> block: a rejected container, the RangeError of \<open>new Int16Array\<close> on an odd
      byte length, the RangeError of the spreads in the diagnostics and an exception of
      \<open>playNextChunk\<close> all land there\<close>
  "playAudioOnWeb arg_limit decodes audioData s =
     (let s1 = addPlaybackMessage ProcessingChunk (s\<lparr>isPlayingAudio := True\<rparr>);
          s2 = s1\<lparr>playbackAudioContext := True\<rparr>;
          failed = (\<lambda>t. (addPlaybackMessage ErrorProcessing t)\<lparr>isPlayingAudio := False\<rparr>)
      in if isWavFile audioData
         then (if decodes then s2\<lparr>clips := clips s2 @ [audioData]\<rparr> else failed s2)
         else (case Int16Array_of_buffer audioData of
                 None \<Rightarrow> failed s2
               | Some int16Array \<Rightarrow>
                   (if \<not> spread_ok arg_limit int16Array then failed s2
                    else (let float32Array = map int16_to_float32 int16Array;
                              s3 = s2\<lparr>audioQueue := audioQueue s2 @ [float32Array]\<rparr>
                          in if \<not> isPlaying s3
                             then (case playNextChunk arg_limit s3 of
                                     Inl t \<Rightarrow> failed t
                                   | Inr t \<Rightarrow> t)
                             else s3))))"

subsection \<open>Base64\<close>

text \<open>
  \<open>btoa\<close> is a platform function: the standard base64 encoding with padding, applied
  to the character codes of a string whose codes are all below 256.
  \<open>base64_decode\<close> is the inverse direction, used to state what the URI carries.
\<close>

definition b64_enc :: "nat \<Rightarrow> char" where
  "b64_enc n = char_of (if n < 26 then 65 + n else if n < 52 then 71 + n
                        else if n < 62 then n - 4 else if n = 62 then 43 else (47::nat))"

definition b64_dec :: "char \<Rightarrow> nat option" where
  "b64_dec c =
     (let n = (of_char c :: nat)
      in if 65 \<le> n \<and> n \<le> 90 then Some (n - 65)
         else if 97 \<le> n \<and> n \<le> 122 then Some (n - 71)
         else if 48 \<le> n \<and> n \<le> 57 then Some (n + 4)
         else if n = 43 then Some 62
         else if n = 47 then Some 63
         else None)"

fun btoa_codes :: "nat list \<Rightarrow> string" where
  "btoa_codes (a # b # c # rest) =
     b64_enc (a div 4) # b64_enc ((a mod 4) * 16 + b div 16)
       # b64_enc ((b mod 16) * 4 + c div 64) # b64_enc (c mod 64) # btoa_codes rest"
| "btoa_codes [a, b] =
     [b64_enc (a div 4), b64_enc ((a mod 4) * 16 + b div 16), b64_enc ((b mod 16) * 4),
      CHR ''='']"
| "btoa_codes [a] = [b64_enc (a div 4), b64_enc ((a mod 4) * 16), CHR ''='', CHR ''='']"
| "btoa_codes [] = []"

definition btoa :: "string \<Rightarrow> string" where
  "btoa s = btoa_codes (map of_char s)"

fun base64_decode :: "string \<Rightarrow> nat list option" where
  "base64_decode (c1 # c2 # c3 # c4 # rest) =
     (case (b64_dec c1, b64_dec c2) of
        (Some x, Some y) \<Rightarrow>
          (if rest = [] \<and> c3 = CHR ''='' \<and> c4 = CHR ''='' then Some [x * 4 + y div 16]
           else (case b64_dec c3 of
                   None \<Rightarrow> None
                 | Some z \<Rightarrow>
                     (if rest = [] \<and> c4 = CHR ''=''
                      then Some [x * 4 + y div 16, (y mod 16) * 16 + z div 4]
                      else (case (b64_dec c4, base64_decode rest) of
                              (Some w, Some ys) \<Rightarrow>
                                Some ((x * 4 + y div 16) # ((y mod 16) * 16 + z div 4)
                                        # ((z mod 4) * 64 + w) # ys)
                            | _ \<Rightarrow> None))))
      | _ \<Rightarrow> None)"
| "base64_decode [] = Some []"
| "base64_decode _ = None"

subsection \<open>The native player and the dispatch on the platform\<close>

definition playAudioOnMobile :: "nat \<Rightarrow> bool \<Rightarrow> bytes \<Rightarrow> playback \<Rightarrow> playback" where
  \<comment> \<open>\<open>loads\<close>: whether \<open>Audio.Sound.createAsync\<close> resolves.  The payload is spread into
      the arguments of \<open>String.fromCharCode\<close>; its RangeError lands in the \<open>catch\<close> block
      before a URI exists\<close>
  "playAudioOnMobile arg_limit loads audioData s =
     (let s1 = addPlaybackMessage PlayingResponse (s\<lparr>isPlayingAudio := True\<rparr>);
          failed = (\<lambda>t. (addPlaybackMessage ErrorPlaying t)\<lparr>isPlayingAudio := False\<rparr>);
          uint8Array = map unat audioData
      in if \<not> spread_ok arg_limit uint8Array then failed s1
         else (let base64 = btoa (fromCharCode uint8Array);
                   audioUri = ''data:audio/wav;base64,'' @ base64;
                   s2 = s1\<lparr>sounds := sounds s1 @ [audioUri]\<rparr>
               in if loads then s2\<lparr>soundRef := Some audioUri\<rparr> else failed s2))"

definition handleAudioResponse ::
    "nat \<Rightarrow> platform \<Rightarrow> bool \<Rightarrow> bytes \<Rightarrow> playback \<Rightarrow> playback" where
  \<comment> \<open>\<open>isWavFile\<close> is evaluated here for the console only\<close>
  "handleAudioResponse arg_limit os accepted audioData s =
     (if os = Web then playAudioOnWeb arg_limit accepted audioData s
      else playAudioOnMobile arg_limit accepted audioData s)"

subsection \<open>Events of the web playback scheduler\<close>

text \<open>
  \<open>Receive\<close>: a binary message arrives and \<open>playAudioOnWeb\<close> runs (it has no
  suspension point on the raw path).  \<open>Ended\<close>: the device finishes the queued source
  that is playing and calls its \<open>onended\<close> handler, which is \<open>playNextChunk\<close>; an
  exception of the handler is caught by nobody and leaves the state as it was at the
  throw.  With no source playing the device has nothing to report.
\<close>

datatype playback_event = Receive bytes | Ended

fun playback_step :: "nat \<Rightarrow> playback \<Rightarrow> playback_event \<Rightarrow> playback" where
  "playback_step arg_limit s (Receive audioData) = playAudioOnWeb arg_limit True audioData s"
| "playback_step arg_limit s Ended =
     (case active s of
        [] \<Rightarrow> s
      | c # cs \<Rightarrow>
          (case playNextChunk arg_limit (s\<lparr>active := cs, finished := finished s @ [c]\<rparr>) of
             Inl t \<Rightarrow> t
           | Inr t \<Rightarrow> t))"

definition playback_run :: "nat \<Rightarrow> playback \<Rightarrow> playback_event list \<Rightarrow> playback" where
  "playback_run arg_limit s es = foldl (playback_step arg_limit) s es"

fun payloads :: "playback_event list \<Rightarrow> bytes list" where
  "payloads [] = []"
| "payloads (Receive b # es) = b # payloads es"
| "payloads (Ended # es) = payloads es"

definition raw_pcm :: "bytes \<Rightarrow> bool" where
  \<comment> \<open>a payload that takes the raw path: not a container, a whole number of samples\<close>
  "raw_pcm b = (\<not> isWavFile b \<and> even (length b))"

definition pcm_chunk :: "bytes \<Rightarrow> chunk" where
  "pcm_chunk b = map int16_to_float32 (Int16Array_elems b)"

definition playable :: "nat \<Rightarrow> bytes \<Rightarrow> bool" where
  \<comment> \<open>a raw payload with at least one sample and no more samples than a call takes
      arguments\<close>
  "playable arg_limit b = (raw_pcm b \<and> 0 < length b \<and> length b div 2 \<le> arg_limit)"

definition sched_inv :: "nat \<Rightarrow> playback \<Rightarrow> bool" where
  \<comment> \<open>at most one queued source plays; the playing flag says whether one does; an idle
      scheduler has an empty queue; every queued chunk can be started\<close>
  "sched_inv arg_limit s =
     (started s = finished s @ active s \<and> length (active s) \<le> 1
      \<and> (isPlaying s = (active s \<noteq> [])) \<and> (isPlaying s \<or> audioQueue s = [])
      \<and> list_all (\<lambda>c. c \<noteq> [] \<and> spread_ok arg_limit c) (audioQueue s))"

section \<open>The voice session controller\<close>

text \<open>
  The recording half of \<open>VoiceInterface\<close>: React state, refs, and the list of frames
  handed to \<open>WebSocket.send\<close>, oldest first.  \<open>ws\<close> is \<open>wsRef.current\<close> together with the
  socket's \<open>readyState\<close> (\<open>None\<close> is \<open>null\<close>).  A resource ref is \<open>True\<close> while it holds its
  resource.  The handlers that \<open>connectWebSocket\<close> installs on the socket are closures of
  the render in which it ran: the \<open>isRecording\<close> they read is the value of that render,
  kept in \<open>handler_isRecording\<close>.  An \<open>async\<close> function is modelled as running to its end
  in one step, with the outcome of the platform call it awaits given as an argument.
  The constructor of the socket and the teardown calls of \<open>stopRecording\<close> are taken not
  to throw, so the \<open>catch\<close> blocks around them are never entered.  An audio context that
  the ref holds is open: the component closes a context only where it clears the ref.
  Console output and the cleanup on unmount are not modelled.
\<close>

datatype readyState = CONNECTING | OPEN | CLOSING | CLOSED

datatype frame = Binary bytes | Text string

datatype connection_status =
    StatusInitial | StatusConnected | StatusError | StatusDisconnected

datatype session_message =
    MsgConnected | MsgWsError | MsgDisconnected | MsgHeaderSent nat
  | MsgStartingWeb | MsgWebStarted | MsgErrorUserMedia
  | MsgStartingMobile | MsgMobileStarted | MsgErrorMobile | MsgErrorStarting
  | MsgStopping | MsgWebReleased | MsgMobileStopped | MsgRecordingUnloaded
  | MsgSentEndOfStream

datatype alert = AlertNotConnected | AlertStartFailed

record session =
  os :: platform
  isRecording :: bool
  isConnected :: bool
  connectionStatus :: connection_status
  messages :: "session_message list"
  alerts :: "alert list"
  ws :: "readyState option"
  handler_isRecording :: bool
  isRecordingRef :: bool
  audioChunkIntervalRef :: bool
  streamRef :: bool
  audioContextRef :: bool
  scriptProcessorRef :: bool
  liveAudioStreamRef :: bool
  recordingRef :: bool
  dataSent :: nat
  chunksSent :: nat
  sent :: "frame list"

definition session_init :: "platform \<Rightarrow> session" where
  "session_init p =
     \<lparr> os = p, isRecording = False, isConnected = False,
       connectionStatus = StatusInitial, messages = [], alerts = [], ws = None,
       handler_isRecording = False, isRecordingRef = False,
       audioChunkIntervalRef = False, streamRef = False, audioContextRef = False,
       scriptProcessorRef = False, liveAudioStreamRef = False, recordingRef = False,
       dataSent = 0, chunksSent = 0, sent = [] \<rparr>"

definition addMessage :: "session_message \<Rightarrow> session \<Rightarrow> session" where
  "addMessage m s = s\<lparr>messages := m # messages s\<rparr>"

definition send :: "frame \<Rightarrow> session \<Rightarrow> session" where
  \<comment> \<open>\<open>wsRef.current.send(...)\<close>\<close>
  "send f s = s\<lparr>sent := sent s @ [f]\<rparr>"

definition stop_json :: string where
  \<comment> \<open>\<open>JSON.stringify({ event: 'stop' })\<close>\<close>
  "stop_json = [CHR ''{'', CHR 0x22] @ ''event'' @ [CHR 0x22, CHR '':'', CHR 0x22] @ ''stop''
                 @ [CHR 0x22, CHR ''}'']"

subsection \<open>\<open>stopRecording\<close>\<close>

definition stopRecording :: "session \<Rightarrow> session" where
  "stopRecording s =
     (let s1 = (addMessage MsgStopping s)\<lparr>isRecording := False\<rparr>;
          s2 = (if audioChunkIntervalRef s1 then s1\<lparr>audioChunkIntervalRef := False\<rparr> else s1);
          s3 = (if os s2 = Web
                then (let a = (if scriptProcessorRef s2
                               then s2\<lparr>scriptProcessorRef := False\<rparr> else s2);
                          b = (if audioContextRef a then a\<lparr>audioContextRef := False\<rparr> else a);
                          c = (if streamRef b then b\<lparr>streamRef := False\<rparr> else b)
                      in addMessage MsgWebReleased c)
                else (let a = (if liveAudioStreamRef s2
                               then addMessage MsgMobileStopped
                                      (s2\<lparr>liveAudioStreamRef := False\<rparr>)
                               else s2)
                      in if recordingRef a
                         then addMessage MsgRecordingUnloaded (a\<lparr>recordingRef := False\<rparr>)
                         else a))
      in if ws s3 = Some OPEN
         then addMessage MsgSentEndOfStream (send (Text stop_json) s3)
         else s3)"

subsection \<open>The socket and its handlers\<close>

definition connectWebSocket :: "session \<Rightarrow> session" where
  "connectWebSocket s = s\<lparr>ws := Some CONNECTING, handler_isRecording := isRecording s\<rparr>"

definition onopen :: "session \<Rightarrow> session" where
  "onopen s = addMessage MsgConnected
                (s\<lparr>isConnected := True, connectionStatus := StatusConnected\<rparr>)"

definition onerror :: "session \<Rightarrow> session" where
  "onerror s = addMessage MsgWsError (s\<lparr>connectionStatus := StatusError\<rparr>)"

definition onclose :: "session \<Rightarrow> session" where
  "onclose s =
     (let s1 = s\<lparr>isConnected := False\<rparr>;
          s2 = (if handler_isRecording s1 then stopRecording s1 else s1)
      in (addMessage MsgDisconnected (s2\<lparr>connectionStatus := StatusDisconnected\<rparr>))
           \<lparr>ws := None\<rparr>)"

definition disconnectWebSocket :: "session \<Rightarrow> session" where
  "disconnectWebSocket s = (case ws s of None \<Rightarrow> s | Some _ \<Rightarrow> s\<lparr>ws := Some CLOSING\<rparr>)"

subsection \<open>Starting a recording\<close>

text \<open>Both capture starters re-throw after logging; \<open>Inl\<close> carries the state at the throw.\<close>

definition startWebRecording :: "bool \<Rightarrow> session \<Rightarrow> session + session" where
  \<comment> \<open>\<open>granted\<close>: whether \<open>getUserMedia\<close> resolves\<close>
  "startWebRecording granted s =
     (let s1 = addMessage MsgStartingWeb s
      in if granted
         then Inr (addMessage MsgWebStarted
                     (s1\<lparr>streamRef := True, audioContextRef := True,
                         scriptProcessorRef := True\<rparr>))
         else Inl (addMessage MsgErrorUserMedia s1))"

definition startMobileRecording :: "bool \<Rightarrow> session \<Rightarrow> session + session" where
  \<comment> \<open>\<open>granted\<close>: whether the audio mode and \<open>LiveAudioStream.start\<close> succeed\<close>
  "startMobileRecording granted s =
     (let s1 = addMessage MsgStartingMobile s
      in if granted
         then Inr (addMessage MsgMobileStarted (s1\<lparr>liveAudioStreamRef := True\<rparr>))
         else Inl (addMessage MsgErrorMobile s1))"

definition startRecording :: "bool \<Rightarrow> session \<Rightarrow> session" where
  "startRecording granted s =
     (if \<not> isConnected s \<or> ws s \<noteq> Some OPEN
      then s\<lparr>alerts := AlertNotConnected # alerts s\<rparr>
      else (let s1 = s\<lparr>dataSent := 0, chunksSent := 0\<rparr>;
                failed = (\<lambda>t. (addMessage MsgErrorStarting t)
                                 \<lparr>alerts := AlertStartFailed # alerts t\<rparr>)
            in case createWavHeader 16000 16 of
                 None \<Rightarrow> failed s1
               | Some header \<Rightarrow>
                   (let s2 = addMessage (MsgHeaderSent (length header))
                               (send (Binary header) s1)
                    in case (if os s2 = Web then startWebRecording granted s2
                             else startMobileRecording granted s2) of
                         Inl t \<Rightarrow> failed t
                       | Inr t \<Rightarrow> t\<lparr>isRecording := True\<rparr>)))"

subsection \<open>The capture callbacks\<close>

definition truthy :: "'a \<Rightarrow> bool" where
  \<comment> \<open>the truth value of an object reference: every object is truthy\<close>
  "truthy obj = True"

definition onaudioprocess :: "rat list \<Rightarrow> session \<Rightarrow> session" where
  \<comment> \<open>the guard reads \<open>!isRecordingRef\<close>, the ref container, not \<open>isRecordingRef.current\<close>\<close>
  "onaudioprocess inputData s =
     (if \<not> truthy (isRecordingRef s) \<or> ws s \<noteq> Some OPEN then s
      else (let pcm16Data = map float32_to_int16 inputData;
                buffer = Int16Array_buffer pcm16Data
            in (send (Binary buffer) s)
                 \<lparr>dataSent := dataSent s + length buffer, chunksSent := chunksSent s + 1\<rparr>))"

datatype live_data =
    ArrayBufferData bytes | Uint8ArrayData bytes | NumberArrayData "rat list"
  | StringData "nat list" | OtherData "nat option"

definition convertAudioDataToBuffer :: "live_data \<Rightarrow> bytes" where
  \<comment> \<open>a string is given by its character codes, any other value by its \<open>length\<close> property\<close>
  "convertAudioDataToBuffer d =
     (case d of
        ArrayBufferData b \<Rightarrow> b
      | Uint8ArrayData b \<Rightarrow> b
      | NumberArrayData xs \<Rightarrow> Int16Array_buffer (map ToInt16 xs)
      | StringData cs \<Rightarrow>
          (if length cs = 0 then replicate 1024 0 else map of_nat cs)
      | OtherData len \<Rightarrow>
          replicate (case len of None \<Rightarrow> 1024 | Some n \<Rightarrow> if n = 0 then 1024 else n) 0)"

definition onLiveAudioData :: "live_data \<Rightarrow> session \<Rightarrow> session" where
  "onLiveAudioData d s =
     (if isRecordingRef s \<and> ws s = Some OPEN
      then (let audioBuffer = convertAudioDataToBuffer d
            in (send (Binary audioBuffer) s)
                 \<lparr>dataSent := dataSent s + length audioBuffer,
                   chunksSent := chunksSent s + 1\<rparr>)
      else s)"

subsection \<open>Events\<close>

text \<open>
  What can happen to the component.  The buttons are those of the rendered screen: the
  connect button shows while not connected, the record button is disabled while not
  connected and calls \<open>stopRecording\<close> or \<open>startRecording\<close> by the recording flag.
  The socket events follow the WebSocket standard: before \<open>open\<close> fires the ready state is
  \<open>OPEN\<close>; before \<open>error\<close> or \<open>close\<close> fires it is \<open>CLOSED\<close>.  \<open>Render\<close> is the effect that
  copies the recording flag into its ref.  The platform calls a capture callback only
  while the capture it belongs to runs: the script processor until it is disconnected,
  the live audio stream until it is stopped.
\<close>

datatype session_event =
    PressConnect | PressDisconnect | PressRecord bool
  | SocketOpen | SocketError | SocketClose | Render
  | AudioProcess "rat list" | LiveData live_data

fun session_step :: "session \<Rightarrow> session_event \<Rightarrow> session" where
  "session_step s PressConnect = (if isConnected s then s else connectWebSocket s)"
| "session_step s PressDisconnect = (if isConnected s then disconnectWebSocket s else s)"
| "session_step s (PressRecord granted) =
     (if \<not> isConnected s then s
      else if isRecording s then stopRecording s
      else startRecording granted s)"
| "session_step s SocketOpen =
     (if ws s = Some CONNECTING then onopen (s\<lparr>ws := Some OPEN\<rparr>) else s)"
| "session_step s SocketError =
     (if ws s = None then s else onerror (s\<lparr>ws := Some CLOSED\<rparr>))"
| "session_step s SocketClose =
     (if ws s = None then s else onclose (s\<lparr>ws := Some CLOSED\<rparr>))"
| "session_step s Render = s\<lparr>isRecordingRef := isRecording s\<rparr>"
| "session_step s (AudioProcess inputData) =
     (if os s = Web \<and> scriptProcessorRef s then onaudioprocess inputData s else s)"
| "session_step s (LiveData d) =
     (if os s = Native \<and> liveAudioStreamRef s then onLiveAudioData d s else s)"

definition session_run :: "session \<Rightarrow> session_event list \<Rightarrow> session" where
  "session_run s es = foldl session_step s es"

definition idle_connected :: "session \<Rightarrow> bool" where
  \<comment> \<open>Connected and not Recording, no capture resource held\<close>
  "idle_connected s =
     (isConnected s \<and> ws s = Some OPEN \<and> \<not> isRecording s
      \<and> \<not> audioChunkIntervalRef s \<and> \<not> streamRef s \<and> \<not> audioContextRef s
      \<and> \<not> scriptProcessorRef s \<and> \<not> liveAudioStreamRef s \<and> \<not> recordingRef s)"

definition pcm_frame :: "rat list \<Rightarrow> frame" where
  \<comment> \<open>the frame \<open>onaudioprocess\<close> sends for one input block\<close>
  "pcm_frame inputData = Binary (Int16Array_buffer (map float32_to_int16 inputData))"

definition stream_header :: bytes where
  \<comment> \<open>the 44 bytes \<open>startRecording\<close> sends: the header for 16000 Hz, 16 bits\<close>
  "stream_header =
     [0x52, 0x49, 0x46, 0x46, 0, 0, 0, 0, 0x57, 0x41, 0x56, 0x45, 0x66, 0x6D, 0x74, 0x20,
      16, 0, 0, 0, 1, 0, 1, 0, 0x80, 0x3E, 0, 0, 0x00, 0x7D, 0, 0, 2, 0, 16, 0,
      0x64, 0x61, 0x74, 0x61, 0, 0, 0, 0]"

definition recording_on :: "session \<Rightarrow> bool" where
  \<comment> \<open>Recording: connected, and the capture of the platform runs\<close>
  "recording_on s =
     (isConnected s \<and> ws s = Some OPEN \<and> isRecording s
      \<and> \<not> audioChunkIntervalRef s \<and> \<not> recordingRef s
      \<and> (if os s = Web
          then streamRef s \<and> audioContextRef s \<and> scriptProcessorRef s
               \<and> \<not> liveAudioStreamRef s
          else liveAudioStreamRef s \<and> \<not> streamRef s \<and> \<not> audioContextRef s
               \<and> \<not> scriptProcessorRef s))"

definition live_frame :: "live_data \<Rightarrow> frame" where
  \<comment> \<open>the frame the live audio callback sends for one delivery\<close>
  "live_frame d = Binary (convertAudioDataToBuffer d)"

section \<open>Properties of the frame codec\<close>

lemma ToUint32_0: "ToUint32 0 = 0"
  by (simp add: ToUint32_def truncate_rat_def)

lemma ToUint32_16: "ToUint32 16 = 16"
  by (simp add: ToUint32_def truncate_rat_def)

lemma ToUint16_1: "ToUint16 1 = 1"
  by (simp add: ToUint16_def truncate_rat_def)

lemma replicate_44:
  "replicate 44 x =
     [x, x, x, x, x, x, x, x, x, x, x, x, x, x, x, x, x, x, x, x, x, x,
      x, x, x, x, x, x, x, x, x, x, x, x, x, x, x, x, x, x, x, x, x, x]"
  by (simp add: numeral_eq_Suc)

lemma createWavHeader_bytes:
  "createWavHeader sr bps = Some
    [0x52, 0x49, 0x46, 0x46, 0, 0, 0, 0, 0x57, 0x41, 0x56, 0x45, 0x66, 0x6D, 0x74, 0x20,
     16, 0, 0, 0, 1, 0, 1, 0,
     of_nat (ToUint32 (of_int sr)),
     of_nat (ToUint32 (of_int sr) div 256),
     of_nat (ToUint32 (of_int sr) div 65536),
     of_nat (ToUint32 (of_int sr) div 16777216),
     of_nat (ToUint32 (of_int sr * 1 * (of_int bps / 8))),
     of_nat (ToUint32 (of_int sr * 1 * (of_int bps / 8)) div 256),
     of_nat (ToUint32 (of_int sr * 1 * (of_int bps / 8)) div 65536),
     of_nat (ToUint32 (of_int sr * 1 * (of_int bps / 8)) div 16777216),
     of_nat (ToUint16 (1 * (of_int bps / 8))),
     of_nat (ToUint16 (1 * (of_int bps / 8)) div 256),
     of_nat (ToUint16 (of_int bps)),
     of_nat (ToUint16 (of_int bps) div 256),
     0x64, 0x61, 0x74, 0x61, 0, 0, 0, 0]"
  unfolding createWavHeader_def Let_def replicate_44
  by (simp add: setUint8_def setUint16_def setUint32_def Let_def
        ToUint32_0 ToUint32_16 ToUint16_1)

lemma unat_byte_of_nat: "unat (of_nat n :: byte) = n mod 256"
  by (simp add: unat_of_nat)

lemma le16_digits: "n mod 256 + 256 * (n div 256 mod 256) = (n::nat) mod 65536"
  using mod_mult2_eq [of n 256 256] by simp

lemma le32_digits:
  "n mod 256 + 256 * (n div 256 mod 256) + 65536 * (n div 65536 mod 256)
     + 16777216 * (n div 16777216 mod 256) = (n::nat) mod 4294967296"
proof -
  have a: "n mod 4294967296 = 65536 * (n div 65536 mod 65536) + n mod 65536"
    using mod_mult2_eq [of n 65536 65536] by simp
  have b: "n div 65536 mod 65536
             = n div 65536 mod 256 + 256 * (n div 16777216 mod 256)"
  proof -
    have "n div 65536 div 256 = n div 16777216"
      using div_mult2_eq [of n 65536 256] by simp
    then show ?thesis using le16_digits [of "n div 65536"] by simp
  qed
  show ?thesis
    unfolding a b using le16_digits [of n] by simp
qed

lemma ToUint32_lt: "ToUint32 x < 4294967296"
  by (simp add: ToUint32_def nat_less_iff)

lemma ToUint16_lt: "ToUint16 x < 65536"
  by (simp add: ToUint16_def nat_less_iff)

lemma ToUint32_of_int: "ToUint32 (of_int k) = nat (k mod 2 ^ 32)"
  by (simp add: ToUint32_def truncate_rat_def)

lemma ToUint16_of_int: "ToUint16 (of_int k) = nat (k mod 2 ^ 16)"
  by (simp add: ToUint16_def truncate_rat_def)

lemma truncate_scaled:
  assumes "0 \<le> a" "0 \<le> b"
  shows "truncate_rat (of_int a * 1 * (of_int b / 8)) = a * 1 * b div 8"
proof -
  have "of_int a * 1 * (of_int b / 8) = (of_int (a * 1 * b) :: rat) / of_int 8"
    by simp
  moreover have "0 \<le> (of_int (a * 1 * b) :: rat) / of_int 8"
    using assms by simp
  ultimately show ?thesis
    unfolding truncate_rat_def using floor_divide_of_int_eq[of "a * 1 * b" 8, where ?'a = rat]
    by (simp del: of_int_mult)
qed

lemma char_of_byte_eq: "char_of (unat (x::byte)) = c \<longleftrightarrow> x = of_nat (of_char c)"
proof
  assume "char_of (unat x) = c"
  then have "of_char (char_of (unat x)) = (of_char c :: nat)" by simp
  moreover have "unat x < 256" using unsigned_less [of x, where ?'a = nat] by simp
  ultimately have "unat x = of_char c" by simp
  then have "(of_nat (unat x) :: byte) = of_nat (of_char c)" by simp
  then show "x = of_nat (of_char c)" by simp
next
  assume "x = of_nat (of_char c)"
  then show "char_of (unat x) = c" by (simp add: unat_of_nat)
qed

lemma char_of_nat_iff: "char_of (n::nat) = c \<longleftrightarrow> n mod 256 = of_char c"
  by (simp add: char_of_eq_iff take_bit_eq_mod)

lemma take4_nth: "4 \<le> length xs \<Longrightarrow> take 4 xs = [xs ! 0, xs ! 1, xs ! 2, xs ! 3]"
proof -
  assume "4 \<le> length xs"
  then obtain a b c d ys where "xs = a # b # c # d # ys"
    by (cases xs; cases "tl xs"; cases "tl (tl xs)"; cases "tl (tl (tl xs))") auto
  then show ?thesis by simp
qed

lemma isWavFile_iff:
  "isWavFile data \<longleftrightarrow>
     12 \<le> length data \<and> take 4 data = [0x52, 0x49, 0x46, 0x46]
       \<and> take 4 (drop 8 data) = [0x57, 0x41, 0x56, 0x45]"
proof (cases "12 \<le> length data")
  case False
  then show ?thesis by (simp add: isWavFile_def)
next
  case True
  then have a: "take 4 data = [data ! 0, data ! 1, data ! 2, data ! 3]"
    by (simp add: take4_nth)
  from True have b: "take 4 (drop 8 data) = [data ! 8, data ! 9, data ! 10, data ! 11]"
    by (simp add: take4_nth)
  from True show ?thesis
    unfolding a b
    by (simp add: isWavFile_def fromCharCode_def getUint8_def char_of_byte_eq Let_def)
qed


lemma le32_at_encoded:
  "le32_at 0 [of_nat n, of_nat (n div 256), of_nat (n div 65536), of_nat (n div 16777216)]
     = n mod 4294967296"
  by (simp add: le32_at_def unat_byte_of_nat le32_digits)

lemma le16_at_encoded: "le16_at 0 [of_nat n, of_nat (n div 256)] = n mod 65536"
  by (simp add: le16_at_def unat_byte_of_nat le16_digits)


lemma le32_at_shift: "le32_at off b = le32_at 0 (drop off b)" if "off + 3 < length b"
  using that by (simp add: le32_at_def add.commute)

lemma le16_at_shift: "le16_at off b = le16_at 0 (drop off b)" if "off + 1 < length b"
  using that by (simp add: le16_at_def add.commute)

lemma le32_at_encoded':
  "le32_at 0 (of_nat n # of_nat (n div 256) # of_nat (n div 65536)
               # of_nat (n div 16777216) # rest) = n mod 4294967296"
  using le32_at_encoded [of n] by (simp add: le32_at_def)

lemma le16_at_encoded':
  "le16_at 0 (of_nat n # of_nat (n div 256) # rest) = n mod 65536"
  using le16_at_encoded [of n] by (simp add: le16_at_def)

lemma createWavHeader_fields:
  "\<exists>h. createWavHeader sampleRate bitsPerSample = Some h
       \<and> length h = 44
       \<and> tag_at 0 h = ''RIFF'' \<and> tag_at 8 h = ''WAVE''
       \<and> tag_at 12 h = ''fmt '' \<and> tag_at 36 h = ''data''
       \<and> le32_at 4 h = 0 \<and> le32_at 40 h = 0
       \<and> le32_at 16 h = 16 \<and> le16_at 20 h = 1 \<and> le16_at 22 h = 1
       \<and> le32_at 24 h = ToUint32 (of_int sampleRate)
       \<and> le32_at 28 h = ToUint32 (of_int sampleRate * 1 * (of_int bitsPerSample / 8))
       \<and> le16_at 32 h = ToUint16 (1 * (of_int bitsPerSample / 8))
       \<and> le16_at 34 h = ToUint16 (of_int bitsPerSample)"
proof -
  define sr where "sr = ToUint32 (of_int sampleRate)"
  define br where "br = ToUint32 (of_int sampleRate * 1 * (of_int bitsPerSample / 8))"
  define ba where "ba = ToUint16 (1 * (of_int bitsPerSample / 8))"
  define bp where "bp = ToUint16 (of_int bitsPerSample)"
  define h :: bytes where "h =
    [0x52, 0x49, 0x46, 0x46, 0, 0, 0, 0, 0x57, 0x41, 0x56, 0x45, 0x66, 0x6D, 0x74, 0x20,
     16, 0, 0, 0, 1, 0, 1, 0,
     of_nat sr, of_nat (sr div 256), of_nat (sr div 65536), of_nat (sr div 16777216),
     of_nat br, of_nat (br div 256), of_nat (br div 65536), of_nat (br div 16777216),
     of_nat ba, of_nat (ba div 256), of_nat bp, of_nat (bp div 256),
     0x64, 0x61, 0x74, 0x61, 0, 0, 0, 0]"
  have hdr: "createWavHeader sampleRate bitsPerSample = Some h"
    unfolding h_def sr_def br_def ba_def bp_def by (rule createWavHeader_bytes)
  have len: "length h = 44" by (simp add: h_def)
  have tags: "tag_at 0 h = ''RIFF''" "tag_at 8 h = ''WAVE''"
    "tag_at 12 h = ''fmt ''" "tag_at 36 h = ''data''"
    by (simp_all add: tag_at_def h_def char_of_nat_iff)
  have cfields: "le32_at 4 h = 0" "le32_at 40 h = 0" "le32_at 16 h = 16"
    "le16_at 20 h = 1" "le16_at 22 h = 1"
    by (simp_all add: le32_at_def le16_at_def h_def)
  have f24: "le32_at 24 h = sr"
    unfolding le32_at_shift [of 24 h, unfolded len, simplified]
    by (simp add: h_def le32_at_encoded' sr_def ToUint32_lt)
  have f28: "le32_at 28 h = br"
    unfolding le32_at_shift [of 28 h, unfolded len, simplified]
    by (simp add: h_def le32_at_encoded' br_def ToUint32_lt)
  have f32: "le16_at 32 h = ba"
    unfolding le16_at_shift [of 32 h, unfolded len, simplified]
    by (simp add: h_def le16_at_encoded' ba_def ToUint16_lt)
  have f34: "le16_at 34 h = bp"
    unfolding le16_at_shift [of 34 h, unfolded len, simplified]
    by (simp add: h_def le16_at_encoded' bp_def ToUint16_lt)
  show ?thesis
    using hdr len tags cfields f24 f28 f32 f34
    unfolding sr_def br_def ba_def bp_def by blast
qed

lemma header_fields_in_range:
  assumes r: "0 \<le> sampleRate" "sampleRate < 2 ^ 32" "0 \<le> bitsPerSample"
      "bitsPerSample < 2 ^ 16" "sampleRate * 1 * bitsPerSample div 8 < 2 ^ 32"
  shows "ToUint32 (of_int sampleRate) = nat sampleRate"
    and "ToUint32 (of_int sampleRate * 1 * (of_int bitsPerSample / 8))
           = nat (sampleRate * 1 * bitsPerSample div 8)"
    and "ToUint16 (1 * (of_int bitsPerSample / 8)) = nat (1 * bitsPerSample div 8)"
    and "ToUint16 (of_int bitsPerSample) = nat bitsPerSample"
proof -
  show "ToUint32 (of_int sampleRate) = nat sampleRate"
    using r by (simp add: ToUint32_of_int)
  show "ToUint16 (of_int bitsPerSample) = nat bitsPerSample"
    using r by (simp add: ToUint16_of_int)
  have "0 \<le> sampleRate * 1 * bitsPerSample div 8"
    using r by (simp add: pos_imp_zdiv_nonneg_iff)
  then show "ToUint32 (of_int sampleRate * 1 * (of_int bitsPerSample / 8))
           = nat (sampleRate * 1 * bitsPerSample div 8)"
    unfolding ToUint32_def truncate_scaled [OF r(1) r(3)] using r(5) by simp
  have "truncate_rat (1 * (of_int bitsPerSample / 8)) = 1 * bitsPerSample div 8"
    using truncate_scaled [of 1 bitsPerSample] r(3) by simp
  then show "ToUint16 (1 * (of_int bitsPerSample / 8)) = nat (1 * bitsPerSample div 8)"
    unfolding ToUint16_def using r(3,4) by simp
qed

text \<open>
  Claim C2.  The header encoder returns a buffer of exactly 44 bytes with the ASCII tags
  \<open>RIFF\<close>, \<open>WAVE\<close>, \<open>fmt \<close> and \<open>data\<close> at offsets 0, 8, 12 and 36, zero
  little-endian length fields at offsets 4 and 40, the PCM tag 1 at offset 20 and the
  channel count 1 at offset 22, whatever its arguments.  For every valid pair, that is
  non-negative integers that fit their fields (\<open>sampleRate < 2^32\<close>,
  \<open>bitsPerSample < 2^16\<close>, byte rate below \<open>2^32\<close>), offset 24 holds the sample rate,
  offset 28 the byte rate \<open>sampleRate * channels * bitsPerSample / 8\<close>, offset 32 the block
  alignment \<open>channels * bitsPerSample / 8\<close> and offset 34 the bits per sample; the two
  quotients are exact when the sample size is a whole number of bytes.
\<close>

theorem createWavHeader_layout:
  "case createWavHeader sampleRate bitsPerSample of
     None \<Rightarrow> False
   | Some h \<Rightarrow>
       length h = 44
       \<and> tag_at 0 h = ''RIFF'' \<and> tag_at 8 h = ''WAVE''
       \<and> tag_at 12 h = ''fmt '' \<and> tag_at 36 h = ''data''
       \<and> le32_at 4 h = 0 \<and> le32_at 40 h = 0
       \<and> le32_at 16 h = 16 \<and> le16_at 20 h = 1 \<and> le16_at 22 h = 1
       \<and> (0 \<le> sampleRate \<and> sampleRate < 2 ^ 32
            \<and> 0 \<le> bitsPerSample \<and> bitsPerSample < 2 ^ 16
            \<and> sampleRate * 1 * bitsPerSample div 8 < 2 ^ 32 \<longrightarrow>
           int (le32_at 24 h) = sampleRate
           \<and> int (le32_at 28 h) = sampleRate * 1 * bitsPerSample div 8
           \<and> int (le16_at 32 h) = 1 * bitsPerSample div 8
           \<and> int (le16_at 34 h) = bitsPerSample
           \<and> (8 dvd bitsPerSample \<longrightarrow>
                 rat_of_nat (le32_at 28 h) = of_int sampleRate * 1 * of_int bitsPerSample / 8
                 \<and> rat_of_nat (le16_at 32 h) = 1 * of_int bitsPerSample / 8))"
proof -
  obtain h where h: "createWavHeader sampleRate bitsPerSample = Some h"
      "length h = 44" "tag_at 0 h = ''RIFF''" "tag_at 8 h = ''WAVE''"
      "tag_at 12 h = ''fmt ''" "tag_at 36 h = ''data''"
      "le32_at 4 h = 0" "le32_at 40 h = 0" "le32_at 16 h = 16"
      "le16_at 20 h = 1" "le16_at 22 h = 1"
    and f: "le32_at 24 h = ToUint32 (of_int sampleRate)"
      "le32_at 28 h = ToUint32 (of_int sampleRate * 1 * (of_int bitsPerSample / 8))"
      "le16_at 32 h = ToUint16 (1 * (of_int bitsPerSample / 8))"
      "le16_at 34 h = ToUint16 (of_int bitsPerSample)"
    using createWavHeader_fields [of sampleRate bitsPerSample] by blast
  have "int (le32_at 24 h) = sampleRate
      \<and> int (le32_at 28 h) = sampleRate * 1 * bitsPerSample div 8
      \<and> int (le16_at 32 h) = 1 * bitsPerSample div 8
      \<and> int (le16_at 34 h) = bitsPerSample
      \<and> (8 dvd bitsPerSample \<longrightarrow>
            rat_of_nat (le32_at 28 h) = of_int sampleRate * 1 * of_int bitsPerSample / 8
            \<and> rat_of_nat (le16_at 32 h) = 1 * of_int bitsPerSample / 8)"
    if r: "0 \<le> sampleRate" "sampleRate < 2 ^ 32" "0 \<le> bitsPerSample"
      "bitsPerSample < 2 ^ 16" "sampleRate * 1 * bitsPerSample div 8 < 2 ^ 32"
  proof -
    have nn: "0 \<le> sampleRate * 1 * bitsPerSample div 8" "0 \<le> 1 * bitsPerSample div 8"
      using r by (simp_all add: pos_imp_zdiv_nonneg_iff)
    have v: "int (le32_at 24 h) = sampleRate"
      "int (le32_at 28 h) = sampleRate * 1 * bitsPerSample div 8"
      "int (le16_at 32 h) = 1 * bitsPerSample div 8"
      "int (le16_at 34 h) = bitsPerSample"
      unfolding f header_fields_in_range [OF r] using r(1,3) nn by simp_all
    have q: "rat_of_nat (le32_at 28 h) = of_int sampleRate * 1 * of_int bitsPerSample / 8
            \<and> rat_of_nat (le16_at 32 h) = 1 * of_int bitsPerSample / 8"
      if d: "8 dvd bitsPerSample"
    proof -
      from d obtain k where k: "bitsPerSample = 8 * k" by (auto simp: dvd_def)
      have "rat_of_nat (le32_at 28 h) = of_int (int (le32_at 28 h))" by simp
      also have "\<dots> = of_int (sampleRate * k)" unfolding v(2) by (simp add: k)
      finally have a: "rat_of_nat (le32_at 28 h)
                         = of_int sampleRate * 1 * of_int bitsPerSample / 8"
        by (simp add: k)
      have "rat_of_nat (le16_at 32 h) = of_int (int (le16_at 32 h))" by simp
      also have "\<dots> = of_int k" unfolding v(3) by (simp add: k)
      finally have b: "rat_of_nat (le16_at 32 h) = 1 * of_int bitsPerSample / 8"
        by (simp add: k)
      from a b show ?thesis by simp
    qed
    from v q show ?thesis by blast
  qed
  then show ?thesis
    unfolding h(1) option.case using h(2-) by blast
qed

text \<open>The session's own format, 16000 Hz and 16 bits, is a valid pair.\<close>

theorem createWavHeader_layout_witness:
  "case createWavHeader 16000 16 of
     None \<Rightarrow> False
   | Some h \<Rightarrow> le32_at 24 h = 16000 \<and> le32_at 28 h = 32000
                \<and> le16_at 32 h = 2 \<and> le16_at 34 h = 16"
  using createWavHeader_layout [of 16000 16] by (simp split: option.splits)

text \<open>
  Claim C3.  The classifier answers "container" (\<open>True\<close>) for every buffer whose bytes
  0..3 are \<open>RIFF\<close> and whose bytes 8..11 are \<open>WAVE\<close>, "raw" (\<open>False\<close>) for every buffer
  shorter than 12 bytes, and "raw" for every buffer in which the two byte groups do not
  both match the magic tags.
\<close>

theorem isWavFile_classification:
  "(take 4 data = [0x52, 0x49, 0x46, 0x46] \<and> take 4 (drop 8 data) = [0x57, 0x41, 0x56, 0x45]
      \<longrightarrow> isWavFile data)
   \<and> (length data < 12 \<longrightarrow> \<not> isWavFile data)
   \<and> (\<not> (take 4 data = [0x52, 0x49, 0x46, 0x46]
           \<and> take 4 (drop 8 data) = [0x57, 0x41, 0x56, 0x45])
      \<longrightarrow> \<not> isWavFile data)"
proof -
  have "12 \<le> length data" if "take 4 (drop 8 data) = [0x57, 0x41, 0x56, 0x45]"
  proof -
    have "length (take 4 (drop 8 data)) = 4" using that by simp
    then show ?thesis by simp
  qed
  then show ?thesis by (auto simp: isWavFile_iff)
qed

text \<open>A container prefix, an 11-byte buffer, and raw samples whose first group differs.\<close>

theorem isWavFile_classification_witness:
  "isWavFile [0x52, 0x49, 0x46, 0x46, 36, 0, 0, 0, 0x57, 0x41, 0x56, 0x45, 0x66, 0x6D]
   \<and> \<not> isWavFile [0x52, 0x49, 0x46, 0x46, 0, 0, 0, 0, 0x57, 0x41, 0x56]
   \<and> \<not> isWavFile [0x10, 0x00, 0xF0, 0xFF, 0x34, 0x12, 0, 0, 0x57, 0x41, 0x56, 0x45]"
  using isWavFile_classification
          [of "[0x52, 0x49, 0x46, 0x46, 36, 0, 0, 0, 0x57, 0x41, 0x56, 0x45, 0x66, 0x6D]"]
        isWavFile_classification
          [of "[0x52, 0x49, 0x46, 0x46, 0, 0, 0, 0, 0x57, 0x41, 0x56]"]
        isWavFile_classification
          [of "[0x10, 0x00, 0xF0, 0xFF, 0x34, 0x12, 0, 0, 0x57, 0x41, 0x56, 0x45]"]
  by simp

section \<open>Properties of the sample conversions\<close>

lemma truncate_rat_of_int: "truncate_rat (of_int k) = k"
  by (simp add: truncate_rat_def)

lemma sint_ToInt16:
  "- 32768 \<le> truncate_rat x \<Longrightarrow> truncate_rat x \<le> 32767 \<Longrightarrow> sint (ToInt16 x) = truncate_rat x"
  unfolding ToInt16_def by (simp add: int_word_sint)

text \<open>
  Claim C4.  The playback conversion divides the signed 16-bit sample by 32768, so 32767
  becomes 32767/32768 (within \<open>10^-5\<close> of 0.99997), -32768 becomes -1 and 0 becomes 0.
  The capture conversion clamps to \<open>[-1, 1]\<close> and scales negative values by 32768 and
  non-negative values by 32767 (the integer part is stored), so every input of at least
  1, such as 1.5, becomes 32767 and every input of at most -1, such as -1.5, becomes -32768.
\<close>

theorem sample_conversion_values:
  "int16_to_float32 w = of_int (sint w) / 32768
   \<and> int16_to_float32 32767 = 32767 / 32768
   \<and> \<bar>int16_to_float32 32767 - 99997 / 100000\<bar> < 1 / 100000
   \<and> int16_to_float32 (- 32768) = - 1
   \<and> int16_to_float32 0 = 0
   \<and> (1 \<le> x \<longrightarrow> sint (float32_to_int16 x) = 32767)
   \<and> (x \<le> - 1 \<longrightarrow> sint (float32_to_int16 x) = - 32768)
   \<and> (- 1 \<le> x \<and> x < 0 \<longrightarrow> sint (float32_to_int16 x) = \<lceil>x * 32768\<rceil>)
   \<and> (0 \<le> x \<and> x \<le> 1 \<longrightarrow> sint (float32_to_int16 x) = \<lfloor>x * 32767\<rfloor>)
   \<and> sint (float32_to_int16 (3 / 2)) = 32767
   \<and> sint (float32_to_int16 (- 3 / 2)) = - 32768"
proof -
  have hi: "sint (float32_to_int16 x) = 32767" if "1 \<le> x" for x
  proof -
    have "max (- 1) (min 1 x) = 1" using that by simp
    then show ?thesis
      by (simp add: float32_to_int16_def sint_ToInt16 truncate_rat_def)
  qed
  have lo: "sint (float32_to_int16 x) = - 32768" if "x \<le> - 1" for x
  proof -
    have "max (- 1) (min 1 x) = - 1" using that by simp
    then show ?thesis
      by (simp add: float32_to_int16_def sint_ToInt16 truncate_rat_def)
  qed
  have neg: "sint (float32_to_int16 x) = \<lceil>x * 32768\<rceil>" if "- 1 \<le> x" "x < 0"
  proof -
    have s: "max (- 1) (min 1 x) = x" using that by simp
    have t: "truncate_rat (x * 32768) = \<lceil>x * 32768\<rceil>"
      using that by (simp add: truncate_rat_def mult_less_0_iff)
    have "- 32768 \<le> x * 32768" "x * 32768 \<le> 0" using that by simp_all
    then have "- 32768 \<le> \<lceil>x * 32768\<rceil>" "\<lceil>x * 32768\<rceil> \<le> 32767"
      by (simp_all add: le_ceiling_iff ceiling_le_iff)
    then show ?thesis
      using that by (simp add: float32_to_int16_def s sint_ToInt16 t)
  qed
  have pos: "sint (float32_to_int16 x) = \<lfloor>x * 32767\<rfloor>" if "0 \<le> x" "x \<le> 1"
  proof -
    have s: "max (- 1) (min 1 x) = x" using that by simp
    have t: "truncate_rat (x * 32767) = \<lfloor>x * 32767\<rfloor>"
      using that by (simp add: truncate_rat_def mult_less_0_iff)
    have "0 \<le> x * 32767" "x * 32767 \<le> 32767" using that by simp_all
    then have "- 32768 \<le> \<lfloor>x * 32767\<rfloor>" "\<lfloor>x * 32767\<rfloor> \<le> 32767"
      by (simp_all add: le_floor_iff floor_le_iff)
    then show ?thesis
      using that by (simp add: float32_to_int16_def s sint_ToInt16 t)
  qed
  have a: "int16_to_float32 32767 = 32767 / 32768" "int16_to_float32 (- 32768) = - 1"
    "int16_to_float32 0 = 0"
    by (simp_all add: int16_to_float32_def)
  have b: "\<bar>int16_to_float32 32767 - 99997 / 100000\<bar> < 1 / 100000"
    unfolding a by simp
  show ?thesis
    using hi [of x] lo [of x] neg pos a b hi [of "3 / 2"] lo [of "- 3 / 2"]
    by (simp add: int16_to_float32_def)
qed

text \<open>The boundary inputs 1.5 and -1.5 of the capture conversion, through the theorem.\<close>

theorem sample_conversion_values_witness:
  "(1::rat) \<le> 3 / 2 \<and> sint (float32_to_int16 (3 / 2)) = 32767
   \<and> (- 3 / 2 :: rat) \<le> - 1 \<and> sint (float32_to_int16 (- 3 / 2)) = - 32768
   \<and> (- 1 :: rat) \<le> - 1 / 2 \<and> (- 1 / 2 :: rat) < 0
   \<and> sint (float32_to_int16 (- 1 / 2)) = - 16384
   \<and> (0::rat) \<le> 0 \<and> (0::rat) \<le> 1 \<and> sint (float32_to_int16 0) = 0"
  using sample_conversion_values [of 0 "3 / 2"] sample_conversion_values [of 0 "- 3 / 2"]
    sample_conversion_values [of 0 "- 1 / 2"] sample_conversion_values [of 0 0]
  by simp

section \<open>Properties of the identifier mapping\<close>

lemma hexval_snoc:
  "hexval (ys @ [y]) = 16 * hexval ys + (case hexDigit y of Some d \<Rightarrow> d | None \<Rightarrow> 0)"
  by (simp add: hexval_def)

lemma hexval_append: "hexval (xs @ ys) = hexval xs * 16 ^ length ys + hexval ys"
proof (induction ys rule: rev_induct)
  case Nil
  then show ?case by (simp add: hexval_def)
next
  case (snoc y ys)
  have "hexval (xs @ ys @ [y]) = hexval ((xs @ ys) @ [y])" by simp
  also have "\<dots> = 16 * hexval (xs @ ys) + (case hexDigit y of Some d \<Rightarrow> d | None \<Rightarrow> 0)"
    by (rule hexval_snoc)
  finally show ?case using snoc by (simp add: hexval_snoc algebra_simps)
qed

lemma hexDigit_lt: "hexDigit c = Some d \<Longrightarrow> d < 16"
  by (auto simp: hexDigit_def Let_def split: if_splits)

lemma hexval_lt: "hexval ds < 16 ^ length ds"
proof (induction ds rule: rev_induct)
  case Nil
  then show ?case by (simp add: hexval_def)
next
  case (snoc y ys)
  have "(case hexDigit y of Some d \<Rightarrow> d | None \<Rightarrow> 0) < 16"
    by (auto split: option.splits dest: hexDigit_lt)
  then show ?case using snoc by (simp add: hexval_snoc)
qed


lemma isHex_not_special:
  "isHex c \<Longrightarrow> \<not> isWhiteSpace c \<and> c \<noteq> CHR ''-'' \<and> c \<noteq> CHR ''+''
                \<and> c \<noteq> CHR ''x'' \<and> c \<noteq> CHR ''X''"
  by (auto simp: isHex_def hexDigit_def isWhiteSpace_def Let_def split: if_splits)

lemma filter_hex: "list_all isHex xs \<Longrightarrow> filter (\<lambda>c. c \<noteq> CHR ''-'') xs = xs"
  by (induction xs) (auto dest: isHex_not_special)

lemma parseInt16_hex:
  assumes "list_all isHex g" "2 \<le> length g"
  shows "parseInt16 g = Some (int (hexval g))"
proof -
  from assms obtain a b r where g: "g = a # b # r"
    by (cases g; cases "tl g") auto
  with assms have ab: "isHex a" "isHex b" by simp_all
  have tw: "takeWhile isHex g = g"
    using assms(1) by (simp add: takeWhile_eq_all_conv list_all_iff)
  have dw: "dropWhile isWhiteSpace g = g"
    using isHex_not_special [OF ab(1)] by (simp add: g)
  show ?thesis
    unfolding parseInt16_def dw Let_def
    using isHex_not_special [OF ab(1)] isHex_not_special [OF ab(2)] tw
    by (simp add: g)
qed

lemma uuid_split:
  assumes "is_uuid s"
  shows "replace_hyphens s = take 8 s @ filter (\<lambda>c. c \<noteq> CHR ''-'') (drop 8 s)"
    and "length (filter (\<lambda>c. c \<noteq> CHR ''-'') (drop 8 s)) = 24"
    and "length (take 8 s) = 8" and "list_all isHex (take 8 s)"
proof -
  from assms have len: "length s = 36" and h1: "list_all isHex (take 8 s)"
    and h2: "list_all isHex (take 4 (drop 9 s))" and h3: "list_all isHex (take 4 (drop 14 s))"
    and h4: "list_all isHex (take 4 (drop 19 s))" and h5: "list_all isHex (drop 24 s)"
    and d: "s ! 8 = CHR ''-''" "s ! 13 = CHR ''-''" "s ! 18 = CHR ''-''" "s ! 23 = CHR ''-''"
    by (simp_all add: is_uuid_def)
  show "list_all isHex (take 8 s)" by (rule h1)
  show "length (take 8 s) = 8" using len by simp
  show "replace_hyphens s = take 8 s @ filter (\<lambda>c. c \<noteq> CHR ''-'') (drop 8 s)"
    using filter_append [of "\<lambda>c. c \<noteq> CHR ''-''" "take 8 s" "drop 8 s"] filter_hex [OF h1]
    by (simp add: replace_hyphens_def)
  have e1: "drop 8 s = s ! 8 # drop 9 s"
    using Cons_nth_drop_Suc [of 8 s] len by simp
  have e2: "drop 9 s = take 4 (drop 9 s) @ drop 13 s"
    using append_take_drop_id [of 4 "drop 9 s"] by simp
  have e3: "drop 13 s = s ! 13 # drop 14 s"
    using Cons_nth_drop_Suc [of 13 s] len by simp
  have e4: "drop 14 s = take 4 (drop 14 s) @ drop 18 s"
    using append_take_drop_id [of 4 "drop 14 s"] by simp
  have e5: "drop 18 s = s ! 18 # drop 19 s"
    using Cons_nth_drop_Suc [of 18 s] len by simp
  have e6: "drop 19 s = take 4 (drop 19 s) @ drop 23 s"
    using append_take_drop_id [of 4 "drop 19 s"] by simp
  have e7: "drop 23 s = s ! 23 # drop 24 s"
    using Cons_nth_drop_Suc [of 23 s] len by simp
  have "filter (\<lambda>c. c \<noteq> CHR ''-'') (drop 8 s)
          = take 4 (drop 9 s) @ take 4 (drop 14 s) @ take 4 (drop 19 s) @ drop 24 s"
    apply (subst e1, subst e2, subst e3, subst e4, subst e5, subst e6, subst e7)
    using filter_hex [OF h2] filter_hex [OF h3] filter_hex [OF h4] filter_hex [OF h5] d
    by simp
  then show "length (filter (\<lambda>c. c \<noteq> CHR ''-'') (drop 8 s)) = 24"
    using len by simp
qed

lemma uuid_to_int:
  assumes "is_uuid s"
  shows "parseInt16 (substring 0 8 (replace_hyphens s)) = Some (int (uuid_value s div 2 ^ 96))"
    and "uuid_value s div 2 ^ 96 = hexval (take 8 s)"
    and "uuid_value s div 2 ^ 96 < 2 ^ 32"
proof -
  define R where "R = filter (\<lambda>c. c \<noteq> CHR ''-'') (drop 8 s)"
  note sp = uuid_split [OF assms, folded R_def]
  have "uuid_value s = hexval (take 8 s @ R)"
    using sp(1) by (simp add: uuid_value_def replace_hyphens_def)
  then have v: "uuid_value s = hexval (take 8 s) * 16 ^ 24 + hexval R"
    using sp(2) by (simp add: hexval_append)
  have "hexval R < 16 ^ 24" using hexval_lt [of R] sp(2) by simp
  then have "uuid_value s div 16 ^ 24 = hexval (take 8 s)"
    unfolding v by simp
  moreover have p: "(16::nat) ^ 24 = 2 ^ 96" by simp
  ultimately show q: "uuid_value s div 2 ^ 96 = hexval (take 8 s)" by (simp only: p)
  have "substring 0 8 (replace_hyphens s) = take 8 s"
    using sp(1,3) by (simp add: substring_def)
  then show "parseInt16 (substring 0 8 (replace_hyphens s)) = Some (int (uuid_value s div 2 ^ 96))"
    using parseInt16_hex [OF sp(4)] sp(3) q by simp
  show "uuid_value s div 2 ^ 96 < 2 ^ 32"
    unfolding q using hexval_lt [of "take 8 s"] sp(3) by simp
qed


text \<open>
  Claim C8 (as amended).  For well-formed 128-bit identifiers the integer sent to the
  collaborator service is the value of the first eight hexadecimal digits of the
  identifier after the hyphens are removed, that is its high-order 32 bits
  (\<open>value div 2^96\<close>), below \<open>2^32\<close>; the upload, update and delete requests derive
  both identifiers in the same way.
\<close>

theorem chroma_ids_high_order:
  assumes "is_uuid rid" and "is_uuid uid"
  shows "addRecipe_ids rid uid
           = \<lparr> recipe_id = Some (int (uuid_value rid div 2 ^ 96)),
               user_id = Some (int (uuid_value uid div 2 ^ 96)) \<rparr>
         \<and> updateRecipe_ids rid uid = addRecipe_ids rid uid
         \<and> deleteRecipe_ids rid uid = addRecipe_ids rid uid
         \<and> uuid_value rid div 2 ^ 96 = hexval (take 8 rid)
         \<and> uuid_value uid div 2 ^ 96 = hexval (take 8 uid)
         \<and> uuid_value rid div 2 ^ 96 < 2 ^ 32
         \<and> uuid_value uid div 2 ^ 96 < 2 ^ 32"
  using uuid_to_int [OF assms(1)] uuid_to_int [OF assms(2)]
  by (simp add: addRecipe_ids_def updateRecipe_ids_def deleteRecipe_ids_def)

lemma is_uuid_example1: "is_uuid ''3f2504e0-4f89-41d3-9a0c-0305e82c3301''"
  by (simp add: is_uuid_def isHex_def hexDigit_def)

lemma is_uuid_example2: "is_uuid ''00000001-0000-0000-0000-000000000002''"
  by (simp add: is_uuid_def isHex_def hexDigit_def)

theorem chroma_ids_high_order_witness:
  "is_uuid ''3f2504e0-4f89-41d3-9a0c-0305e82c3301''
   \<and> is_uuid ''00000001-0000-0000-0000-000000000002''
   \<and> deleteRecipe_ids ''3f2504e0-4f89-41d3-9a0c-0305e82c3301''
        ''00000001-0000-0000-0000-000000000002''
       = \<lparr> recipe_id = Some 1059390688, user_id = Some 1 \<rparr>"
proof -
  have "hexval (take 8 ''3f2504e0-4f89-41d3-9a0c-0305e82c3301'') = 1059390688"
    by (simp add: hexval_def hexDigit_def)
  moreover have "hexval (take 8 ''00000001-0000-0000-0000-000000000002'') = 1"
    by (simp add: hexval_def hexDigit_def)
  ultimately show ?thesis
    using chroma_ids_high_order [OF is_uuid_example1 is_uuid_example2]
      is_uuid_example1 is_uuid_example2
    by simp
qed

text \<open>
  Claim C8 as stated fails: the substring is the leading, high-order one.  For the
  identifier \<open>00000001-0000-0000-0000-000000000002\<close> the code sends 1, while the
  low-order 32 bits (the last eight digits) are 2.
\<close>

theorem chroma_ids_low_order_counterexample:
  "is_uuid ''00000001-0000-0000-0000-000000000002''
   \<and> recipe_id (deleteRecipe_ids ''00000001-0000-0000-0000-000000000002''
                   ''00000001-0000-0000-0000-000000000002'') = Some 1
   \<and> uuid_value ''00000001-0000-0000-0000-000000000002'' mod 2 ^ 32 = 2
   \<and> recipe_id (deleteRecipe_ids ''00000001-0000-0000-0000-000000000002''
                   ''00000001-0000-0000-0000-000000000002'')
       \<noteq> Some (int (uuid_value ''00000001-0000-0000-0000-000000000002'' mod 2 ^ 32))"
proof -
  have a: "hexval (take 8 ''00000001-0000-0000-0000-000000000002'') = 1"
    by (simp add: hexval_def hexDigit_def)
  have b: "uuid_value ''00000001-0000-0000-0000-000000000002'' = 2 ^ 96 + 2"
    by (simp add: uuid_value_def hexval_def hexDigit_def)
  have c: "((2::nat) ^ 96 + 2) mod 2 ^ 32 = 2"
    by simp
  show ?thesis
    using uuid_to_int [OF is_uuid_example2] a is_uuid_example2
    unfolding b c
    by (simp add: deleteRecipe_ids_def)
qed

section \<open>Properties of the native playback path\<close>

lemma b64_dec_enc: "n < 64 \<Longrightarrow> b64_dec (b64_enc n) = Some n"
  by (auto simp add: b64_dec_def b64_enc_def Let_def)

lemma b64_enc_not_pad: "n < 64 \<Longrightarrow> b64_enc n \<noteq> CHR ''=''"
proof
  assume n: "n < 64" and "b64_enc n = CHR ''=''"
  then have "b64_dec (b64_enc n) = b64_dec (CHR ''='')" by simp
  then show False using b64_dec_enc [OF n] by (simp add: b64_dec_def)
qed

lemma b64_alphabet:
  "map b64_enc [0..<64]
     = ''ABCDEFGHIJKLMNOPQRSTUVWXYZabcdefghijklmnopqrstuvwxyz0123456789+/''"
  by code_simp

lemma sextets:
  fixes a b c :: nat
  assumes "a < 256" "b < 256" "c < 256"
  shows "a div 4 < 64" "(a mod 4) * 16 + b div 16 < 64" "(b mod 16) * 4 + c div 64 < 64"
    "c mod 64 < 64" "(a mod 4) * 16 < 64" "(b mod 16) * 4 < 64"
  using assms by simp_all

lemma octets:
  fixes a b c :: nat
  assumes "a < 256" "b < 256" "c < 256"
  shows "a div 4 * 4 + ((a mod 4) * 16 + b div 16) div 16 = a"
    and "(((a mod 4) * 16 + b div 16) mod 16) * 16 + ((b mod 16) * 4 + c div 64) div 4 = b"
    and "(((b mod 16) * 4 + c div 64) mod 4) * 64 + c mod 64 = c"
    and "a div 4 * 4 + ((a mod 4) * 16) div 16 = a"
    and "(((a mod 4) * 16 + b div 16) mod 16) * 16 + ((b mod 16) * 4) div 4 = b"
  using assms by simp_all


lemma base64_decode_sextets:
  assumes "s1 < 64" "s2 < 64"
  shows "base64_decode [b64_enc s1, b64_enc s2, CHR ''='', CHR ''='']
           = Some [s1 * 4 + s2 div 16]"
    and "s3 < 64 \<Longrightarrow>
         base64_decode [b64_enc s1, b64_enc s2, b64_enc s3, CHR ''='']
           = Some [s1 * 4 + s2 div 16, (s2 mod 16) * 16 + s3 div 4]"
    and "s3 < 64 \<Longrightarrow> s4 < 64 \<Longrightarrow> base64_decode r = Some ys \<Longrightarrow>
         base64_decode (b64_enc s1 # b64_enc s2 # b64_enc s3 # b64_enc s4 # r)
           = Some ((s1 * 4 + s2 div 16) # ((s2 mod 16) * 16 + s3 div 4)
                     # ((s3 mod 4) * 64 + s4) # ys)"
  using assms by (simp_all add: b64_dec_enc b64_enc_not_pad)

lemma base64_decode_quad:
  assumes "a < 256" "b < 256" "c < 256" "base64_decode r = Some ys"
  shows "base64_decode (b64_enc (a div 4) # b64_enc ((a mod 4) * 16 + b div 16)
            # b64_enc ((b mod 16) * 4 + c div 64) # b64_enc (c mod 64) # r)
         = Some (a # b # c # ys)"
  unfolding base64_decode_sextets(3) [OF sextets(1-4) [OF assms(1-3)] assms(4)]
  using octets(1-3) [OF assms(1-3)] by (simp only:)

lemma base64_decode_pad1:
  assumes "a < 256" "b < 256"
  shows "base64_decode [b64_enc (a div 4), b64_enc ((a mod 4) * 16 + b div 16),
            b64_enc ((b mod 16) * 4), CHR ''=''] = Some [a, b]"
  unfolding base64_decode_sextets(2)
      [OF sextets(1,2) [OF assms assms(1)] sextets(6) [OF assms assms(1)]]
  using octets(1,5) [OF assms assms(1)] by (simp only:)

lemma base64_decode_pad2:
  assumes "a < 256"
  shows "base64_decode [b64_enc (a div 4), b64_enc ((a mod 4) * 16), CHR ''='', CHR ''='']
           = Some [a]"
  unfolding base64_decode_sextets(1)
      [OF sextets(1) [OF assms assms assms] sextets(5) [OF assms assms assms]]
  using octets(4) [OF assms assms assms] by (simp only:)

lemma base64_roundtrip:
  "list_all (\<lambda>x. x < 256) xs \<Longrightarrow> base64_decode (btoa_codes xs) = Some xs"
proof (induction xs rule: btoa_codes.induct)
  case (1 a b c rest)
  then show ?case by (simp add: base64_decode_quad del: base64_decode.simps)
next
  case (2 a b)
  then show ?case by (simp add: base64_decode_pad1 del: base64_decode.simps)
next
  case (3 a)
  then show ?case by (simp add: base64_decode_pad2 del: base64_decode.simps)
next
  case 4
  then show ?case by simp
qed

lemma codes_of_bytes: "map of_char (fromCharCode (map unat (d::bytes))) = map unat d"
proof -
  have "unat x mod 256 = unat x" for x :: byte
    using unsigned_less [of x, where ?'a = nat] by simp
  then show ?thesis by (simp add: fromCharCode_def)
qed

lemma bytes_lt_256: "list_all (\<lambda>x. x < 256) (map unat (d::bytes))"
proof -
  have "unat x < 256" for x :: byte
    using unsigned_less [of x, where ?'a = nat] by simp
  then show ?thesis by (simp add: list_all_iff)
qed

lemma native_playback_within_limit:
  assumes "length audioData \<le> arg_limit"
  shows "sounds (handleAudioResponse arg_limit Native loads audioData s)
           = sounds s @ [''data:audio/wav;base64,'' @ btoa (fromCharCode (map unat audioData))]"
    and "base64_decode
           (drop 22 (last (sounds (handleAudioResponse arg_limit Native loads audioData s))))
           = Some (map unat audioData)"
    and "audioQueue (handleAudioResponse arg_limit Native loads audioData s) = audioQueue s"
    and "started (handleAudioResponse arg_limit Native loads audioData s) = started s"
    and "clips (handleAudioResponse arg_limit Native loads audioData s) = clips s"
proof -
  show s: "sounds (handleAudioResponse arg_limit Native loads audioData s)
     = sounds s @ [''data:audio/wav;base64,'' @ btoa (fromCharCode (map unat audioData))]"
    using assms
    by (simp add: handleAudioResponse_def playAudioOnMobile_def spread_ok_def Let_def
          addPlaybackMessage_def)
  have "base64_decode (btoa (fromCharCode (map unat audioData))) = Some (map unat audioData)"
    unfolding btoa_def codes_of_bytes by (rule base64_roundtrip [OF bytes_lt_256])
  then show "base64_decode
           (drop 22 (last (sounds (handleAudioResponse arg_limit Native loads audioData s))))
           = Some (map unat audioData)"
    unfolding s by simp
  show "audioQueue (handleAudioResponse arg_limit Native loads audioData s) = audioQueue s"
    "started (handleAudioResponse arg_limit Native loads audioData s) = started s"
    "clips (handleAudioResponse arg_limit Native loads audioData s) = clips s"
    by (simp_all add: handleAudioResponse_def playAudioOnMobile_def Let_def
          addPlaybackMessage_def)
qed

text \<open>
  Claim C10 on the code.  The native path builds the URI from
  \<open>String.fromCharCode(...uint8Array)\<close>, which spreads the whole payload into the
  arguments of one call.  For a payload longer than the engine's argument limit the call
  raises a RangeError inside the \<open>try\<close> block: no URI is built, nothing is handed to the
  media player, the sound ref keeps its old value, and the handler only logs the error
  and clears \<open>isPlayingAudio\<close>.  (Lemma \<open>native_playback_within_limit\<close> covers the
  payloads within the limit: they reach the player as the data URI and decode back to
  the payload bytes.)
\<close>

theorem native_playback_oversized_payload:
  assumes "arg_limit < length audioData"
  shows "sounds (handleAudioResponse arg_limit Native loads audioData s) = sounds s
         \<and> soundRef (handleAudioResponse arg_limit Native loads audioData s) = soundRef s
         \<and> \<not> isPlayingAudio (handleAudioResponse arg_limit Native loads audioData s)
         \<and> playback_messages (handleAudioResponse arg_limit Native loads audioData s)
            = ErrorPlaying # PlayingResponse # playback_messages s"
  using assms
  by (simp add: handleAudioResponse_def playAudioOnMobile_def spread_ok_def Let_def
        addPlaybackMessage_def)

text \<open>A response of 131072 bytes, four seconds of audio, on an engine that accepts 65535
  arguments.\<close>

theorem native_playback_oversized_payload_witness:
  "65535 < length (replicate 131072 (0::byte))
   \<and> sounds (handleAudioResponse 65535 Native True (replicate 131072 0) playback_init) = []
   \<and> soundRef (handleAudioResponse 65535 Native True (replicate 131072 0) playback_init) = None"
  using native_playback_oversized_payload [of 65535 "replicate 131072 0" True playback_init]
  by (simp add: playback_init_def)

section \<open>Properties of the web playback scheduler\<close>

lemma length_Int16Array_elems: "length (Int16Array_elems b) = length b div 2"
  by (induction b rule: Int16Array_elems.induct) simp_all

lemma playable_chunk:
  assumes "playable arg_limit b"
  shows "pcm_chunk b \<noteq> []" and "spread_ok arg_limit (pcm_chunk b)"
    and "spread_ok arg_limit (Int16Array_elems b)" and "raw_pcm b"
proof -
  from assms have e: "even (length b)" and p: "0 < length b" and l: "length b div 2 \<le> arg_limit"
    and r: "raw_pcm b"
    by (simp_all add: playable_def raw_pcm_def)
  from e obtain k where k: "length b = 2 * k" by (elim evenE)
  with p have "0 < k" by simp
  then have "0 < length b div 2" by (simp add: k)
  then have "length (pcm_chunk b) \<noteq> 0"
    by (simp add: pcm_chunk_def length_Int16Array_elems)
  then show "pcm_chunk b \<noteq> []" by simp
  show "spread_ok arg_limit (pcm_chunk b)" "spread_ok arg_limit (Int16Array_elems b)"
    using l by (simp_all add: spread_ok_def pcm_chunk_def length_Int16Array_elems)
  show "raw_pcm b" by (rule r)
qed

lemma playNextChunk_ok:
  assumes "audioQueue s = c # rest" "c \<noteq> []" "spread_ok arg_limit c"
  shows "playNextChunk arg_limit s
           = Inr (s\<lparr>isPlaying := True, audioQueue := rest, audioSource := Some c,
                     started := started s @ [c], active := active s @ [c]\<rparr>)"
  using assms by (simp add: playNextChunk_def Let_def)

lemma playNextChunk_idle:
  assumes "audioQueue s = []"
  shows "playNextChunk arg_limit s
           = Inr (addPlaybackMessage PlaybackCompleted
                    (s\<lparr>isPlaying := False, isPlayingAudio := False\<rparr>))"
  using assms by (simp add: playNextChunk_def)

lemma receive_step_all:
  assumes "playable arg_limit b" "sched_inv arg_limit s"
  shows "sched_inv arg_limit (playback_step arg_limit s (Receive b))
         \<and> started (playback_step arg_limit s (Receive b))
             @ audioQueue (playback_step arg_limit s (Receive b))
             = (started s @ audioQueue s) @ [pcm_chunk b]
         \<and> finished (playback_step arg_limit s (Receive b)) = finished s"
proof -
  note c = playable_chunk [OF assms(1)]
  define s3 where "s3 = s\<lparr>isPlayingAudio := True,
                   playback_messages := ProcessingChunk # playback_messages s,
                   playbackAudioContext := True,
                   audioQueue := audioQueue s @ [pcm_chunk b]\<rparr>"
  have st: "playAudioOnWeb arg_limit True b s
      = (if isPlaying s then s3
         else (case playNextChunk arg_limit s3 of
                 Inl t \<Rightarrow> t\<lparr>playback_messages := ErrorProcessing # playback_messages t,
                            isPlayingAudio := False\<rparr>
               | Inr t \<Rightarrow> t))"
    using c(3,4)
    by (simp add: playAudioOnWeb_def raw_pcm_def Int16Array_of_buffer_def pcm_chunk_def
          addPlaybackMessage_def Let_def s3_def)
  show ?thesis
  proof (cases "isPlaying s")
    case True
    then show ?thesis
      unfolding playback_step.simps st
      using assms(2) c(1,2) by (simp add: s3_def sched_inv_def)
  next
    case False
    with assms(2) have q: "audioQueue s = []" and a: "active s = []"
      and f: "started s = finished s"
      by (auto simp: sched_inv_def)
    have "audioQueue s3 = [pcm_chunk b]" by (simp add: s3_def q)
    from playNextChunk_ok [OF this c(1,2)] False
    have st': "playAudioOnWeb arg_limit True b s
      = s3\<lparr>isPlaying := True, audioQueue := [], audioSource := Some (pcm_chunk b),
            started := started s3 @ [pcm_chunk b], active := active s3 @ [pcm_chunk b]\<rparr>"
      by (simp add: st)
    show ?thesis
      unfolding playback_step.simps st' using q a f by (simp add: s3_def sched_inv_def)
  qed
qed

lemmas receive_step = receive_step_all [THEN conjunct1]
  receive_step_all [THEN conjunct2, THEN conjunct1]
  receive_step_all [THEN conjunct2, THEN conjunct2]

lemma ended_advance:
  assumes "sched_inv arg_limit s" "active s = [c]"
  shows "audioQueue s = q # rest \<Longrightarrow>
           finished (playback_step arg_limit s Ended) = finished s @ [c]
           \<and> active (playback_step arg_limit s Ended) = [q]
           \<and> started (playback_step arg_limit s Ended) = started s @ [q]
           \<and> audioQueue (playback_step arg_limit s Ended) = rest
           \<and> isPlaying (playback_step arg_limit s Ended)"
    and "audioQueue s = [] \<Longrightarrow>
           finished (playback_step arg_limit s Ended) = finished s @ [c]
           \<and> active (playback_step arg_limit s Ended) = []
           \<and> started (playback_step arg_limit s Ended) = started s
           \<and> audioQueue (playback_step arg_limit s Ended) = []
           \<and> \<not> isPlaying (playback_step arg_limit s Ended)"
proof -
  define s' where "s' = s\<lparr>active := [], finished := finished s @ [c]\<rparr>"
  have st: "playback_step arg_limit s Ended
              = (case playNextChunk arg_limit s' of Inl t \<Rightarrow> t | Inr t \<Rightarrow> t)"
    using assms(2) by (simp add: s'_def)
  show "finished (playback_step arg_limit s Ended) = finished s @ [c]
           \<and> active (playback_step arg_limit s Ended) = [q]
           \<and> started (playback_step arg_limit s Ended) = started s @ [q]
           \<and> audioQueue (playback_step arg_limit s Ended) = rest
           \<and> isPlaying (playback_step arg_limit s Ended)"
    if q: "audioQueue s = q # rest"
  proof -
    have "q \<noteq> []" "spread_ok arg_limit q"
      using assms(1) q by (simp_all add: sched_inv_def)
    moreover have "audioQueue s' = q # rest" by (simp add: s'_def q)
    ultimately show ?thesis
      unfolding st using playNextChunk_ok [of s' q rest arg_limit] by (simp add: s'_def)
  qed
  show "finished (playback_step arg_limit s Ended) = finished s @ [c]
           \<and> active (playback_step arg_limit s Ended) = []
           \<and> started (playback_step arg_limit s Ended) = started s
           \<and> audioQueue (playback_step arg_limit s Ended) = []
           \<and> \<not> isPlaying (playback_step arg_limit s Ended)"
    if q: "audioQueue s = []"
  proof -
    have "audioQueue s' = []" by (simp add: s'_def q)
    then show ?thesis
      unfolding st using playNextChunk_idle [of s' arg_limit]
      by (simp add: s'_def addPlaybackMessage_def)
  qed
qed

lemma ended_step_all:
  assumes "sched_inv arg_limit s"
  shows "sched_inv arg_limit (playback_step arg_limit s Ended)
         \<and> started (playback_step arg_limit s Ended)
             @ audioQueue (playback_step arg_limit s Ended) = started s @ audioQueue s
         \<and> length (active (playback_step arg_limit s Ended))
             + length (audioQueue (playback_step arg_limit s Ended))
           = length (active s) + length (audioQueue s) - 1"
proof (cases "active s")
  case Nil
  then have "audioQueue s = []" using assms by (auto simp: sched_inv_def)
  with Nil assms show ?thesis by simp
next
  case (Cons c cs)
  with assms have a: "active s = [c]" and f: "started s = finished s @ [c]"
    by (auto simp: sched_inv_def)
  show ?thesis
  proof (cases "audioQueue s")
    case Nil
    from ended_advance(2) [OF assms a Nil] f a Nil
    show ?thesis by (simp add: sched_inv_def)
  next
    case (Cons q rest)
    have "list_all (\<lambda>c. c \<noteq> [] \<and> spread_ok arg_limit c) rest"
      using assms Cons by (simp add: sched_inv_def)
    with ended_advance(1) [OF assms a Cons] f a Cons
    show ?thesis by (simp add: sched_inv_def)
  qed
qed

lemmas ended_step = ended_step_all [THEN conjunct1]
  ended_step_all [THEN conjunct2, THEN conjunct1]
  ended_step_all [THEN conjunct2, THEN conjunct2]

lemma run_invariant:
  assumes "list_all (playable arg_limit) (payloads es)" "sched_inv arg_limit s"
  shows "sched_inv arg_limit (playback_run arg_limit s es)
         \<and> started (playback_run arg_limit s es) @ audioQueue (playback_run arg_limit s es)
             = (started s @ audioQueue s) @ map pcm_chunk (payloads es)"
  using assms
proof (induction es arbitrary: s)
  case Nil
  then show ?case by (simp add: playback_run_def)
next
  case (Cons e es)
  show ?case
  proof (cases e)
    case (Receive b)
    with Cons.prems have r: "playable arg_limit b"
      and rest: "list_all (playable arg_limit) (payloads es)" by simp_all
    from Cons.IH [OF rest receive_step(1) [OF r Cons.prems(2)]]
      receive_step(2) [OF r Cons.prems(2)]
    show ?thesis by (simp add: playback_run_def Receive)
  next
    case Ended
    with Cons.prems have rest: "list_all (playable arg_limit) (payloads es)" by simp
    from Cons.IH [OF rest ended_step(1) [OF Cons.prems(2)]] ended_step(2) [OF Cons.prems(2)]
    show ?thesis by (simp add: playback_run_def Ended)
  qed
qed

lemma drain:
  assumes "sched_inv arg_limit s" "length (active s) + length (audioQueue s) \<le> n"
  shows "finished (playback_run arg_limit s (replicate n Ended)) = started s @ audioQueue s
         \<and> active (playback_run arg_limit s (replicate n Ended)) = []
         \<and> audioQueue (playback_run arg_limit s (replicate n Ended)) = []
         \<and> \<not> isPlaying (playback_run arg_limit s (replicate n Ended))"
  using assms
proof (induction n arbitrary: s)
  case 0
  then show ?case by (simp add: playback_run_def sched_inv_def)
next
  case (Suc n)
  have inv': "sched_inv arg_limit (playback_step arg_limit s Ended)"
    by (rule ended_step(1) [OF Suc.prems(1)])
  have h: "started (playback_step arg_limit s Ended)
             @ audioQueue (playback_step arg_limit s Ended) = started s @ audioQueue s"
    by (rule ended_step(2) [OF Suc.prems(1)])
  have m: "length (active (playback_step arg_limit s Ended))
             + length (audioQueue (playback_step arg_limit s Ended)) \<le> n"
    using ended_step(3) [OF Suc.prems(1)] Suc.prems(2) by simp
  from Suc.IH [OF inv' m] h show ?case
    by (simp add: playback_run_def)
qed

lemma sched_inv_init: "sched_inv arg_limit playback_init"
  by (simp add: sched_inv_def playback_init_def)

text \<open>
  What the scheduler does for payloads it can start.  Let raw PCM payloads, each with
  at least one sample and no more samples than the engine accepts arguments, arrive in
  any interleaving with completion events.  The chunks started so far followed by the
  queued ones are the received chunks in arrival order; at most one chunk plays; a
  completion event with a non-empty queue starts the queue head within the same handler
  call; after as many further completions as chunks were received every chunk has been
  rendered in arrival order and the scheduler is idle.
\<close>

lemma playback_fifo_playable:
  assumes "list_all (playable arg_limit) (payloads es)"
  shows "let s = playback_run arg_limit playback_init es;
             d = playback_run arg_limit s (replicate (length (payloads es)) Ended)
         in started s @ audioQueue s = map pcm_chunk (payloads es)
            \<and> started s = finished s @ active s \<and> length (active s) \<le> 1
            \<and> isPlaying s = (active s \<noteq> [])
            \<and> (case (active s, audioQueue s) of
                  ([c], q # rest) \<Rightarrow>
                     finished (playback_step arg_limit s Ended) = finished s @ [c]
                     \<and> started (playback_step arg_limit s Ended) = started s @ [q]
                     \<and> active (playback_step arg_limit s Ended) = [q]
                     \<and> isPlaying (playback_step arg_limit s Ended)
                | ([c], []) \<Rightarrow>
                     finished (playback_step arg_limit s Ended) = finished s @ [c]
                     \<and> active (playback_step arg_limit s Ended) = []
                     \<and> \<not> isPlaying (playback_step arg_limit s Ended)
                | _ \<Rightarrow> audioQueue s = [] \<and> \<not> isPlaying s)
            \<and> finished d = map pcm_chunk (payloads es)
            \<and> audioQueue d = [] \<and> active d = [] \<and> \<not> isPlaying d"
proof -
  define s where "s = playback_run arg_limit playback_init es"
  define d where "d = playback_run arg_limit s (replicate (length (payloads es)) Ended)"
  have inv: "sched_inv arg_limit s"
    and hist: "started s @ audioQueue s = map pcm_chunk (payloads es)"
    using run_invariant [OF assms sched_inv_init] by (simp_all add: s_def playback_init_def)
  have a: "started s = finished s @ active s" "length (active s) \<le> 1"
    "isPlaying s = (active s \<noteq> [])" "isPlaying s \<or> audioQueue s = []"
    using inv by (auto simp: sched_inv_def)
  have "length (started s @ audioQueue s) = length (payloads es)"
    unfolding hist by simp
  then have "length (active s) + length (audioQueue s) \<le> length (payloads es)"
    using a(1) by simp
  from drain [OF inv this] hist
  have dr: "finished d = map pcm_chunk (payloads es)" "audioQueue d = []" "active d = []"
    "\<not> isPlaying d"
    by (simp_all add: d_def)
  have adv: "case (active s, audioQueue s) of
                  ([c], q # rest) \<Rightarrow>
                     finished (playback_step arg_limit s Ended) = finished s @ [c]
                     \<and> started (playback_step arg_limit s Ended) = started s @ [q]
                     \<and> active (playback_step arg_limit s Ended) = [q]
                     \<and> isPlaying (playback_step arg_limit s Ended)
                | ([c], []) \<Rightarrow>
                     finished (playback_step arg_limit s Ended) = finished s @ [c]
                     \<and> active (playback_step arg_limit s Ended) = []
                     \<and> \<not> isPlaying (playback_step arg_limit s Ended)
                | _ \<Rightarrow> audioQueue s = [] \<and> \<not> isPlaying s"
  proof (cases "active s")
    case Nil
    then show ?thesis using a(3,4) by simp
  next
    case (Cons c cs)
    with a(2) have c: "active s = [c]" by simp
    show ?thesis
      using ended_advance [OF inv c] by (cases "audioQueue s") (simp_all add: c)
  qed
  show ?thesis
    unfolding Let_def s_def [symmetric] d_def [symmetric]
    using hist a(1-3) adv dr by blast
qed

lemma oversized_chunk_dropped:
  assumes "raw_pcm b" "arg_limit < length b div 2"
  shows "audioQueue (playback_step arg_limit s (Receive b)) = audioQueue s"
    and "started (playback_step arg_limit s (Receive b)) = started s"
  using assms
  by (simp_all add: playAudioOnWeb_def raw_pcm_def Int16Array_of_buffer_def spread_ok_def
        length_Int16Array_elems addPlaybackMessage_def Let_def)

lemma stalled_step:
  assumes "isPlaying s" "active s = []"
  shows "isPlaying (playback_step arg_limit s e)" and "active (playback_step arg_limit s e) = []"
    and "started (playback_step arg_limit s e) = started s"
    and "finished (playback_step arg_limit s e) = finished s"
  using assms
  by (cases e;
      simp add: playAudioOnWeb_def addPlaybackMessage_def Let_def split: option.splits)+

lemma stalled_run:
  assumes "isPlaying s" "active s = []"
  shows "isPlaying (playback_run arg_limit s es) \<and> active (playback_run arg_limit s es) = []
         \<and> started (playback_run arg_limit s es) = started s
         \<and> finished (playback_run arg_limit s es) = finished s"
  using assms
proof (induction es arbitrary: s)
  case Nil
  then show ?case by (simp add: playback_run_def)
next
  case (Cons e es)
  from Cons.IH [OF stalled_step(1,2) [OF Cons.prems]] stalled_step(3,4) [OF Cons.prems]
  show ?case by (simp add: playback_run_def)
qed

lemma pcm_chunk_examples:
  "pcm_chunk [0xFF, 0x7F] = [32767 / 32768]" "pcm_chunk [0x00, 0x80] = [- 1]"
  "pcm_chunk [0, 0] = [0]" "pcm_chunk [] = []"
  by (simp_all add: pcm_chunk_def int16_to_float32_def)

text \<open>The scenario of the specification: three chunks arrive while the scheduler is
  idle, then three completions.\<close>

lemma playback_fifo_playable_example:
  "list_all (playable 65535)
     (payloads [Receive [0xFF, 0x7F], Receive [0x00, 0x80], Receive [0, 0]])
   \<and> finished (playback_run 65535 playback_init
        [Receive [0xFF, 0x7F], Receive [0x00, 0x80], Receive [0, 0], Ended, Ended, Ended])
      = [[32767 / 32768], [- 1], [0]]
   \<and> \<not> isPlaying (playback_run 65535 playback_init
        [Receive [0xFF, 0x7F], Receive [0x00, 0x80], Receive [0, 0], Ended, Ended, Ended])"
proof -
  have r: "list_all (playable 65535)
             (payloads [Receive [0xFF, 0x7F], Receive [0x00, 0x80], Receive [0, 0]])"
    by (simp add: playable_def raw_pcm_def isWavFile_def)
  have e: "playback_run 65535 (playback_run 65535 playback_init es) [Ended, Ended, Ended]
            = playback_run 65535 playback_init (es @ [Ended, Ended, Ended])" for es
    by (simp add: playback_run_def)
  show ?thesis
    using playback_fifo_playable [OF r] r
    by (simp add: Let_def numeral_3_eq_3 e pcm_chunk_examples)
qed

text \<open>
  Claim C1 on the code.  An empty binary message is a raw PCM payload: it is not a
  container and holds a whole number of samples, so it is pushed as an empty chunk.  If
  the scheduler is idle, \<open>playNextChunk\<close> sets the playing flag, removes the chunk and
  then fails in \<open>createBuffer(1, 0, 16000)\<close>; the \<open>catch\<close> block of \<open>playAudioOnWeb\<close> logs
  the error but does not clear the flag.  From then on no source plays and the flag says
  one does: whatever arrives afterwards is queued and never started, and no completion
  event can come.  The scenario below receives an empty chunk and then a chunk of one
  sample: the sample stays in the queue for ever.
\<close>

theorem empty_chunk_stalls_playback:
  "raw_pcm []
   \<and> isPlaying (playback_run arg_limit (playback_step arg_limit playback_init (Receive [])) es)
   \<and> started (playback_run arg_limit (playback_step arg_limit playback_init (Receive [])) es)
       = []
   \<and> active (playback_run arg_limit (playback_step arg_limit playback_init (Receive [])) es)
       = []
   \<and> finished (playback_run arg_limit (playback_step arg_limit playback_init (Receive [])) es)
       = []
   \<and> audioQueue (playback_run 65535 playback_init [Receive [], Receive [0xFF, 0x7F], Ended])
       = [[32767 / 32768]]"
proof -
  define s0 where "s0 = playback_step arg_limit playback_init (Receive [])"
  have r: "raw_pcm []" by (simp add: raw_pcm_def isWavFile_def)
  have s0: "isPlaying s0" "active s0 = []" "started s0 = []" "finished s0 = []"
    by (simp_all add: s0_def playAudioOnWeb_def isWavFile_def Int16Array_of_buffer_def
          spread_ok_def playNextChunk_def addPlaybackMessage_def playback_init_def Let_def)
  have q: "audioQueue (playback_run 65535 playback_init [Receive [], Receive [0xFF, 0x7F], Ended])
       = [[32767 / 32768]]"
    by (simp add: playback_run_def playAudioOnWeb_def isWavFile_def Int16Array_of_buffer_def
          spread_ok_def playNextChunk_def addPlaybackMessage_def playback_init_def Let_def
          int16_to_float32_def)
  show ?thesis
    using r stalled_run [OF s0(1,2), of arg_limit es] s0(3,4) q
    unfolding s0_def by simp
qed


section \<open>Properties of the voice session controller\<close>

lemma createWavHeader_16k: "createWavHeader 16000 16 = Some stream_header"
  using createWavHeader_bytes [of 16000 16]
  by (simp add: stream_header_def ToUint32_def ToUint16_def truncate_rat_def)

lemma length_stream_header: "length stream_header = 44"
  by (simp add: stream_header_def)

lemma session_run_append:
  "session_run s (xs @ ys) = session_run (session_run s xs) ys"
  by (simp add: session_run_def)

lemma session_run_Cons: "session_run s (e # es) = session_run (session_step s e) es"
  by (simp add: session_run_def)

lemma session_run_Nil: "session_run s [] = s"
  by (simp add: session_run_def)

lemma onaudioprocess_open:
  "ws s = Some OPEN \<Longrightarrow>
     onaudioprocess inputData s
       = (s\<lparr>sent := sent s @ [pcm_frame inputData]\<rparr>)
           \<lparr>dataSent := dataSent s + length (Int16Array_buffer (map float32_to_int16 inputData)),
             chunksSent := chunksSent s + 1\<rparr>"
  by (simp add: onaudioprocess_def truthy_def send_def pcm_frame_def Let_def)

lemma onaudioprocess_not_open: "ws s \<noteq> Some OPEN \<Longrightarrow> onaudioprocess inputData s = s"
  by (simp add: onaudioprocess_def)

lemma start_turn:
  assumes "idle_connected s"
  shows "recording_on (session_step s (PressRecord True))"
    and "sent (session_step s (PressRecord True)) = sent s @ [Binary stream_header]"
    and "os (session_step s (PressRecord True)) = os s"
  using assms
  by (auto simp: idle_connected_def recording_on_def startRecording_def createWavHeader_16k
        startWebRecording_def startMobileRecording_def addMessage_def send_def Let_def)

lemma render_recording:
  assumes "recording_on s"
  shows "recording_on (session_step s Render)" and "isRecordingRef (session_step s Render)"
    and "sent (session_step s Render) = sent s" and "os (session_step s Render) = os s"
  using assms by (auto simp: recording_on_def split: if_splits)

lemma web_frames:
  assumes "recording_on s" "os s = Web"
  shows "recording_on (session_run s (map AudioProcess blocks))
         \<and> os (session_run s (map AudioProcess blocks)) = Web
         \<and> sent (session_run s (map AudioProcess blocks)) = sent s @ map pcm_frame blocks"
  using assms
proof (induction blocks arbitrary: s)
  case Nil
  then show ?case by (simp add: session_run_Nil)
next
  case (Cons b blocks)
  have o: "ws s = Some OPEN" "scriptProcessorRef s"
    using Cons.prems by (simp_all add: recording_on_def)
  have st: "session_step s (AudioProcess b)
     = (s\<lparr>sent := sent s @ [pcm_frame b]\<rparr>)
           \<lparr>dataSent := dataSent s + length (Int16Array_buffer (map float32_to_int16 b)),
             chunksSent := chunksSent s + 1\<rparr>"
    using Cons.prems(2) o by (simp add: onaudioprocess_open)
  have r: "recording_on (session_step s (AudioProcess b))" "os (session_step s (AudioProcess b)) = Web"
    unfolding st using Cons.prems by (simp_all add: recording_on_def)
  have f: "sent (session_step s (AudioProcess b)) = sent s @ [pcm_frame b]"
    unfolding st by simp
  from Cons.IH [OF r] f show ?case
    by (simp add: session_run_Cons)
qed

lemma native_frames:
  assumes "recording_on s" "os s = Native" "isRecordingRef s"
  shows "recording_on (session_run s (map LiveData ds))
         \<and> os (session_run s (map LiveData ds)) = Native
         \<and> sent (session_run s (map LiveData ds)) = sent s @ map live_frame ds"
  using assms
proof (induction ds arbitrary: s)
  case Nil
  then show ?case by (simp add: session_run_Nil)
next
  case (Cons d ds)
  have o: "ws s = Some OPEN" "liveAudioStreamRef s"
    using Cons.prems by (simp_all add: recording_on_def)
  have st: "session_step s (LiveData d)
     = (s\<lparr>sent := sent s @ [live_frame d]\<rparr>)
           \<lparr>dataSent := dataSent s + length (convertAudioDataToBuffer d),
             chunksSent := chunksSent s + 1\<rparr>"
    using Cons.prems(2,3) o by (simp add: onLiveAudioData_def send_def live_frame_def Let_def)
  have r: "recording_on (session_step s (LiveData d))" "os (session_step s (LiveData d)) = Native"
    "isRecordingRef (session_step s (LiveData d))"
    unfolding st using Cons.prems by (simp_all add: recording_on_def)
  have f: "sent (session_step s (LiveData d)) = sent s @ [live_frame d]"
    unfolding st by simp
  from Cons.IH [OF r] f show ?case
    by (simp add: session_run_Cons)
qed

lemma stop_turn:
  assumes "recording_on s"
  shows "idle_connected (session_step s (PressRecord g))"
    and "sent (session_step s (PressRecord g)) = sent s @ [Text stop_json]"
    and "os (session_step s (PressRecord g)) = os s"
  using assms
  by (auto simp: idle_connected_def recording_on_def stopRecording_def addMessage_def
        send_def Let_def split: if_splits)

lemma idle_no_capture:
  assumes "idle_connected s"
  shows "session_step s (AudioProcess b) = s" and "session_step s (LiveData d) = s"
  using assms by (simp_all add: idle_connected_def)


lemma turn_web:
  assumes "idle_connected s" "os s = Web"
  shows "sent (session_run s (PressRecord True # Render # map AudioProcess blocks @ [PressRecord g]))
           = sent s @ Binary stream_header # map pcm_frame blocks @ [Text stop_json]"
    and "idle_connected
           (session_run s (PressRecord True # Render # map AudioProcess blocks @ [PressRecord g]))"
    and "os (session_run s (PressRecord True # Render # map AudioProcess blocks @ [PressRecord g]))
           = Web"
proof -
  define s1 where "s1 = session_step s (PressRecord True)"
  define s2 where "s2 = session_step s1 Render"
  define s3 where "s3 = session_run s2 (map AudioProcess blocks)"
  have run: "session_run s (PressRecord True # Render # map AudioProcess blocks @ [PressRecord g])
               = session_step s3 (PressRecord g)"
    by (simp add: session_run_Cons session_run_append session_run_Nil s1_def s2_def s3_def)
  have r1: "recording_on s1" "sent s1 = sent s @ [Binary stream_header]" "os s1 = Web"
    using start_turn [OF assms(1)] assms(2) by (simp_all add: s1_def)
  have r2: "recording_on s2" "sent s2 = sent s1" "os s2 = Web"
    using render_recording [OF r1(1)] r1(3) by (simp_all add: s2_def)
  have r3: "recording_on s3" "os s3 = Web" "sent s3 = sent s2 @ map pcm_frame blocks"
    using web_frames [OF r2(1) r2(3)] by (simp_all add: s3_def)
  show "sent (session_run s (PressRecord True # Render # map AudioProcess blocks @ [PressRecord g]))
           = sent s @ Binary stream_header # map pcm_frame blocks @ [Text stop_json]"
    unfolding run using stop_turn(2) [OF r3(1)] r3(3) r2(2) r1(2) by simp
  show "idle_connected
           (session_run s (PressRecord True # Render # map AudioProcess blocks @ [PressRecord g]))"
    unfolding run by (rule stop_turn(1) [OF r3(1)])
  show "os (session_run s (PressRecord True # Render # map AudioProcess blocks @ [PressRecord g]))
           = Web"
    unfolding run using stop_turn(3) [OF r3(1)] r3(2) by simp
qed

lemma turn_native:
  assumes "idle_connected s" "os s = Native"
  shows "sent (session_run s (PressRecord True # Render # map LiveData ds @ [PressRecord g]))
           = sent s @ Binary stream_header # map live_frame ds @ [Text stop_json]"
    and "idle_connected
           (session_run s (PressRecord True # Render # map LiveData ds @ [PressRecord g]))"
proof -
  define s1 where "s1 = session_step s (PressRecord True)"
  define s2 where "s2 = session_step s1 Render"
  define s3 where "s3 = session_run s2 (map LiveData ds)"
  have run: "session_run s (PressRecord True # Render # map LiveData ds @ [PressRecord g])
               = session_step s3 (PressRecord g)"
    by (simp add: session_run_Cons session_run_append session_run_Nil s1_def s2_def s3_def)
  have r1: "recording_on s1" "sent s1 = sent s @ [Binary stream_header]" "os s1 = Native"
    using start_turn [OF assms(1)] assms(2) by (simp_all add: s1_def)
  have r2: "recording_on s2" "sent s2 = sent s1" "os s2 = Native" "isRecordingRef s2"
    using render_recording [OF r1(1)] r1(3) by (simp_all add: s2_def)
  have r3: "recording_on s3" "sent s3 = sent s2 @ map live_frame ds"
    using native_frames [OF r2(1) r2(3) r2(4)] by (simp_all add: s3_def)
  show "sent (session_run s (PressRecord True # Render # map LiveData ds @ [PressRecord g]))
           = sent s @ Binary stream_header # map live_frame ds @ [Text stop_json]"
    unfolding run using stop_turn(2) [OF r3(1)] r3(2) r2(2) r1(2) by simp
  show "idle_connected
           (session_run s (PressRecord True # Render # map LiveData ds @ [PressRecord g]))"
    unfolding run by (rule stop_turn(1) [OF r3(1)])
qed

lemma connected_web:
  "idle_connected (session_run (session_init Web) [PressConnect, SocketOpen])"
  "os (session_run (session_init Web) [PressConnect, SocketOpen]) = Web"
  "sent (session_run (session_init Web) [PressConnect, SocketOpen]) = []"
  "\<not> handler_isRecording (session_run (session_init Web) [PressConnect, SocketOpen])"
  by (simp_all add: session_run_def session_init_def connectWebSocket_def onopen_def
        addMessage_def idle_connected_def)

lemma pcm_frame_zero: "pcm_frame [0] = Binary [0, 0]"
  by (simp add: pcm_frame_def Int16Array_buffer_def int16_bytes_def float32_to_int16_def
        ToInt16_def truncate_rat_def)

lemma pcm_bytes_zero: "Int16Array_buffer [float32_to_int16 0] = [0, 0]"
  using pcm_frame_zero by (simp add: pcm_frame_def)

text \<open>
  Claim C5 (as amended).  Every recording turn that starts from the Connected state
  sends the 44-byte stream header exactly once, as the first frame of the turn and
  before its audio frames, then one frame per captured buffer in capture order, then
  exactly one \<open>{"event":"stop"}\<close> text frame; after the turn the session is Connected
  and idle again, and a capture callback sends nothing until the next turn begins.
\<close>

theorem recording_turn_frames:
  assumes "idle_connected s"
  shows "createWavHeader 16000 16 = Some stream_header \<and> length stream_header = 44
    \<and> (os s = Web \<longrightarrow>
         (let t = session_run s
                    (PressRecord True # Render # map AudioProcess blocks @ [PressRecord g])
          in sent t = sent s @ Binary stream_header # map pcm_frame blocks @ [Text stop_json]
             \<and> idle_connected t \<and> session_step t (AudioProcess b) = t))
    \<and> (os s = Native \<longrightarrow>
         (let t = session_run s
                    (PressRecord True # Render # map LiveData ds @ [PressRecord g])
          in sent t = sent s @ Binary stream_header # map live_frame ds @ [Text stop_json]
             \<and> idle_connected t \<and> session_step t (LiveData d) = t))"
proof -
  have w: "sent t = sent s @ Binary stream_header # map pcm_frame blocks @ [Text stop_json]
           \<and> idle_connected t \<and> session_step t (AudioProcess b) = t"
    if "os s = Web"
      and "t = session_run s
                 (PressRecord True # Render # map AudioProcess blocks @ [PressRecord g])"
    for t
    using turn_web(1,2) [OF assms that(1), of blocks g]
      idle_no_capture(1) [OF turn_web(2) [OF assms that(1), of blocks g], of b]
    unfolding that(2) by simp
  have n: "sent t = sent s @ Binary stream_header # map live_frame ds @ [Text stop_json]
           \<and> idle_connected t \<and> session_step t (LiveData d) = t"
    if "os s = Native"
      and "t = session_run s (PressRecord True # Render # map LiveData ds @ [PressRecord g])"
    for t
    using turn_native [OF assms that(1), of ds g]
      idle_no_capture(2) [OF turn_native(2) [OF assms that(1), of ds g], of d]
    unfolding that(2) by simp
  show ?thesis
    unfolding Let_def using w n createWavHeader_16k length_stream_header by blast
qed

theorem recording_turn_frames_witness:
  "idle_connected (session_run (session_init Web) [PressConnect, SocketOpen])
   \<and> sent (session_run (session_run (session_init Web) [PressConnect, SocketOpen])
             [PressRecord True, Render, AudioProcess [0], AudioProcess [0], PressRecord True])
     = [Binary stream_header, Binary [0, 0], Binary [0, 0], Text stop_json]"
  using recording_turn_frames [OF connected_web(1), of "[[0], [0]]" True] connected_web
  by (simp add: Let_def pcm_frame_zero)

text \<open>
  Claim C5 as stated fails for a session with more than one recording turn: the header
  is sent at the start of every turn, so two turns within one connected session send it
  twice, the second time after audio frames and a stop frame.
\<close>

theorem header_per_turn_counterexample:
  "sent (session_run (session_init Web)
           [PressConnect, SocketOpen,
            PressRecord True, Render, AudioProcess [0], PressRecord True,
            PressRecord True, Render, AudioProcess [0], PressRecord True])
     = [Binary stream_header, Binary [0, 0], Text stop_json,
        Binary stream_header, Binary [0, 0], Text stop_json]
   \<and> count_list (sent (session_run (session_init Web)
           [PressConnect, SocketOpen,
            PressRecord True, Render, AudioProcess [0], PressRecord True,
            PressRecord True, Render, AudioProcess [0], PressRecord True]))
         (Binary stream_header) = 2"
proof -
  define s0 where "s0 = session_run (session_init Web) [PressConnect, SocketOpen]"
  define s1 where "s1 = session_run s0
            [PressRecord True, Render, AudioProcess [0], PressRecord True]"
  have i0: "idle_connected s0" "os s0 = Web" "sent s0 = []"
    using connected_web by (simp_all add: s0_def)
  have t1: "sent s1 = [Binary stream_header, Binary [0, 0], Text stop_json]"
    "idle_connected s1" "os s1 = Web"
    using turn_web [OF i0(1,2), of "[[0]]" True] i0(3)
    by (simp_all add: s1_def pcm_frame_zero)
  have t2: "sent (session_run s1 [PressRecord True, Render, AudioProcess [0], PressRecord True])
      = [Binary stream_header, Binary [0, 0], Text stop_json,
         Binary stream_header, Binary [0, 0], Text stop_json]"
    using turn_web(1) [OF t1(2,3), of "[[0]]" True] t1(1)
    by (simp add: pcm_frame_zero)
  have run: "session_run (session_init Web)
           [PressConnect, SocketOpen,
            PressRecord True, Render, AudioProcess [0], PressRecord True,
            PressRecord True, Render, AudioProcess [0], PressRecord True]
     = session_run s1 [PressRecord True, Render, AudioProcess [0], PressRecord True]"
    unfolding s1_def s0_def session_run_append [symmetric] by simp
  have ne: "stream_header \<noteq> [0, 0]" by (simp add: stream_header_def)
  show ?thesis unfolding run t2 using ne by simp
qed


text \<open>
  Claim C7 (as amended).  \<open>stopRecording\<close> has no guard on the recording flag.  Called
  while the session is Connected and not Recording it leaves the connected flag, the
  recording flag, the socket and every capture resource as they were, but it appends its
  log entries and sends one \<open>{"event":"stop"}\<close> control frame.  The screen does not call
  it in that state: the record button starts a recording instead.
\<close>

theorem stop_when_not_recording:
  assumes "idle_connected s"
  shows "stopRecording s
           = s\<lparr>messages := MsgSentEndOfStream
                   # (if os s = Web then [MsgWebReleased] else []) @ MsgStopping # messages s,
                sent := sent s @ [Text stop_json]\<rparr>
         \<and> isConnected (stopRecording s) \<and> \<not> isRecording (stopRecording s)
         \<and> idle_connected (stopRecording s)
         \<and> sent (stopRecording s) = sent s @ [Text stop_json]
         \<and> session_step s (PressRecord granted) = startRecording granted s"
  using assms
  by (cases s)
     (simp add: idle_connected_def stopRecording_def addMessage_def send_def Let_def)

theorem stop_when_not_recording_witness:
  "idle_connected (session_run (session_init Web) [PressConnect, SocketOpen])
   \<and> sent (stopRecording (session_run (session_init Web) [PressConnect, SocketOpen]))
      = [Text stop_json]"
  using stop_when_not_recording [OF connected_web(1)] connected_web by simp

text \<open>
  Claim C7 as stated fails: in a session that has just connected and never recorded,
  \<open>stopRecording\<close> sends the stop control message.
\<close>

theorem stop_sends_control_counterexample:
  "isConnected (session_run (session_init Web) [PressConnect, SocketOpen, Render])
   \<and> \<not> isRecording (session_run (session_init Web) [PressConnect, SocketOpen, Render])
   \<and> sent (session_run (session_init Web) [PressConnect, SocketOpen, Render]) = []
   \<and> sent (stopRecording (session_run (session_init Web) [PressConnect, SocketOpen, Render]))
      = [Text stop_json]
   \<and> stopRecording (session_run (session_init Web) [PressConnect, SocketOpen, Render])
      \<noteq> session_run (session_init Web) [PressConnect, SocketOpen, Render]"
proof -
  define s where "s = session_run (session_init Web) [PressConnect, SocketOpen, Render]"
  have a: "isConnected s" "\<not> isRecording s" "sent s = []" "ws s = Some OPEN" "os s = Web"
    by (simp_all add: s_def session_run_def session_init_def connectWebSocket_def onopen_def
          addMessage_def)
  have b: "sent (stopRecording s) = [Text stop_json]"
    using a by (simp add: stopRecording_def addMessage_def send_def Let_def)
  have "stopRecording s \<noteq> s"
  proof
    assume "stopRecording s = s"
    then have "sent (stopRecording s) = sent s" by simp
    then show False using a(3) b by simp
  qed
  then show ?thesis using a b unfolding s_def by simp
qed

text \<open>
  Claim C9.  In the web capture callback the only test that matters is the socket's
  ready state: with the socket \<open>OPEN\<close> the block is converted and sent, whatever the
  recording flag and its ref hold, and otherwise nothing is sent.  A running script
  processor keeps sending after both flags are cleared; what ends the transmission is the
  teardown in \<open>stopRecording\<close>, which releases the processor, the context and the stream,
  after which the callback is no longer delivered.
\<close>

theorem onaudioprocess_guard:
  "(ws s = Some OPEN \<longrightarrow>
      sent (onaudioprocess inputData s) = sent s @ [pcm_frame inputData]
      \<and> chunksSent (onaudioprocess inputData s) = chunksSent s + 1)
   \<and> (ws s \<noteq> Some OPEN \<longrightarrow> onaudioprocess inputData s = s)
   \<and> sent (onaudioprocess inputData (s\<lparr>isRecording := r, isRecordingRef := f\<rparr>))
       = sent (onaudioprocess inputData s)
   \<and> (os s = Web \<and> scriptProcessorRef s \<and> ws s = Some OPEN \<longrightarrow>
        sent (session_step (s\<lparr>isRecording := False, isRecordingRef := False\<rparr>)
                (AudioProcess inputData))
          = sent s @ [pcm_frame inputData])
   \<and> (os s = Web \<longrightarrow>
        \<not> scriptProcessorRef (stopRecording s) \<and> \<not> audioContextRef (stopRecording s)
        \<and> \<not> streamRef (stopRecording s)
        \<and> session_step (stopRecording s) (AudioProcess inputData) = stopRecording s)"
proof -
  have a: "sent (onaudioprocess inputData t) = sent t @ [pcm_frame inputData]
           \<and> chunksSent (onaudioprocess inputData t) = chunksSent t + 1"
    if "ws t = Some OPEN" for t
    using that by (simp add: onaudioprocess_open)
  have b: "sent (onaudioprocess inputData (s\<lparr>isRecording := r, isRecordingRef := f\<rparr>))
       = sent (onaudioprocess inputData s)"
    by (simp add: onaudioprocess_def truthy_def send_def Let_def)
  have c: "sent (session_step (s\<lparr>isRecording := False, isRecordingRef := False\<rparr>)
                (AudioProcess inputData))
          = sent s @ [pcm_frame inputData]"
    if "os s = Web" "scriptProcessorRef s" "ws s = Some OPEN"
    using that a [of "s\<lparr>isRecording := False, isRecordingRef := False\<rparr>"] by simp
  have d: "\<not> scriptProcessorRef (stopRecording s) \<and> \<not> audioContextRef (stopRecording s)
        \<and> \<not> streamRef (stopRecording s) \<and> os (stopRecording s) = Web"
    if "os s = Web"
    using that by (simp add: stopRecording_def addMessage_def send_def Let_def)
  show ?thesis
    using a [of s] onaudioprocess_not_open [of s inputData] b c d by simp
qed

theorem onaudioprocess_guard_witness:
  "ws ((session_init Web)\<lparr>ws := Some OPEN, scriptProcessorRef := True\<rparr>) = Some OPEN
   \<and> sent (session_step ((session_init Web)\<lparr>ws := Some OPEN, scriptProcessorRef := True\<rparr>)
             (AudioProcess [0]))
      = [Binary [0, 0]]
   \<and> ws (session_init Web) \<noteq> Some OPEN
   \<and> onaudioprocess [0] (session_init Web) = session_init Web
   \<and> \<not> scriptProcessorRef
        (stopRecording ((session_init Web)\<lparr>ws := Some OPEN, scriptProcessorRef := True\<rparr>))"
  using onaudioprocess_guard
          [of "(session_init Web)\<lparr>ws := Some OPEN, scriptProcessorRef := True\<rparr>" "[0]"
              False False]
        onaudioprocess_guard [of "session_init Web" "[0]" False False]
  by (simp add: session_init_def pcm_frame_zero)

text \<open>
  Claim C6 on the code.  A session that connects, starts recording on the web platform
  and then meets a transport error followed by the close of the socket ends Disconnected
  and sends nothing further, but the recording is not stopped: the recording flag stays
  set and the script processor, the audio context and the media stream stay acquired,
  because the close handler reads the recording flag of the render in which the socket
  was opened.  The same holds on the native platform for the live audio stream.
\<close>

theorem transport_error_keeps_recording:
  "recording_on (session_run (session_init Web)
       [PressConnect, SocketOpen, Render, PressRecord True, Render, AudioProcess [0]])
   \<and> (let t = session_run (session_init Web)
                 [PressConnect, SocketOpen, Render, PressRecord True, Render, AudioProcess [0],
                  SocketError, SocketClose, Render, AudioProcess [0]]
       in \<not> isConnected t \<and> ws t = None \<and> connectionStatus t = StatusDisconnected
          \<and> isRecording t \<and> isRecordingRef t
          \<and> scriptProcessorRef t \<and> audioContextRef t \<and> streamRef t
          \<and> sent t = [Binary stream_header, Binary [0, 0]])
   \<and> (let t = session_run (session_init Native)
                 [PressConnect, SocketOpen, Render, PressRecord True, Render,
                  SocketError, SocketClose, Render]
       in \<not> isConnected t \<and> ws t = None \<and> isRecording t \<and> liveAudioStreamRef t)"
  by (simp add: session_run_def session_init_def connectWebSocket_def onopen_def onerror_def
        onclose_def addMessage_def send_def startRecording_def startWebRecording_def
        startMobileRecording_def createWavHeader_16k onaudioprocess_def truthy_def
        recording_on_def Let_def pcm_bytes_zero)

end
